theory Spec2Isabelle
  imports Main "HOL-Library.Word" "HOL-Library.FSet" "HOL-Library.Monad_Syntax"
begin

section \<open>The piggyback statistics collector of the executor\<close>

text \<open>
  A shallow embedding of the statistics code that rides along with the executor:
  \<^item> \<^verbatim>\<open>LookForFilterWithEquality\<close>, the piggyback block of \<^verbatim>\<open>ExecProcNode\<close>,
    \<^verbatim>\<open>buildTwoColumnCombinations\<close>, \<^verbatim>\<open>addToTwoColumnCombinationHashSet\<close> and the piggyback
    block of \<^verbatim>\<open>ExecEndNode\<close> (src/backend/executor/execProcnode.c);
  \<^item> \<^verbatim>\<open>printMetaData\<close> and \<^verbatim>\<open>printDistinctValues\<close> (src/backend/piggyback/piggyback.c).

  The C code works on the global pointer \<^verbatim>\<open>piggyback\<close> and prints with \<^verbatim>\<open>printf\<close>; the
  model passes a state holding that pointer and the text printed so far. A function of
  the model returns \<open>None\<close> where the C code reads or writes outside an array, follows a
  null pointer or reads a node through a cast to a type the node does not have: C leaves
  the behaviour undefined there. Allocation is taken to succeed: the one allocation that
  the code checks ends the process when it fails.
\<close>

subsection \<open>Machine types and constants\<close>

type_synonym Oid = "32 word"
type_synonym Datum = "64 word"
type_synonym cint = "32 word"
type_synonym AttrNumber = "16 word"

text \<open>The bounds of \<^verbatim>\<open>int\<close> from limits.h; a \<open>cint\<close> is read as signed with \<open>sint\<close>.\<close>

definition INT_MAX :: cint where
  "INT_MAX = 0x7FFFFFFF"

definition INT_MIN :: cint where
  "INT_MIN = 0x80000000"

text \<open>
  Modelled from the spec: \<^verbatim>\<open>catalog/pg_type.h\<close>, which gives the type identifiers their
  numbers, is not among the files at hand. The specification names the families the
  switch of \<^verbatim>\<open>ExecProcNode\<close> tells apart (integer, decimal, character); the numbers are
  those of the catalog, and the properties below use of them only that the three families
  do not overlap.
\<close>

definition INT8OID :: Oid where
  "INT8OID = 20"

definition INT2OID :: Oid where
  "INT2OID = 21"

definition INT2VECTOROID :: Oid where
  "INT2VECTOROID = 22"

definition INT4OID :: Oid where
  "INT4OID = 23"

definition BPCHAROID :: Oid where
  "BPCHAROID = 1042"

definition VARCHAROID :: Oid where
  "VARCHAROID = 1043"

definition NUMERICOID :: Oid where
  "NUMERICOID = 1700"

subsection \<open>Text output\<close>

text \<open>
  \<^verbatim>\<open>printf\<close> and \<^verbatim>\<open>sprintf\<close> with the conversions \<^verbatim>\<open>%d\<close> and \<^verbatim>\<open>%ld\<close>: the decimal
  digits of the number, with a minus sign in front of a negative one.
\<close>

fun decimal_digits :: "nat \<Rightarrow> string" where
  "decimal_digits n =
     (if n < 10 then [''0123456789'' ! n]
      else decimal_digits (n div 10) @ [''0123456789'' ! (n mod 10)])"

declare decimal_digits.simps [simp del]

definition format_d :: "int \<Rightarrow> string" where
  "format_d v = (if v < 0 then CHR ''-'' # decimal_digits (nat (- v)) else decimal_digits (nat v))"

subsection \<open>Hash sets\<close>

text \<open>
  The hash sets behind \<^verbatim>\<open>distinctValues\<close> and \<^verbatim>\<open>twoColumnsCombinations\<close>. An integer
  key and a text key are different keys, also when the text is the integer's digits.
\<close>

datatype ScalarKey = IntegerKey cint | StringKey string

type_synonym hashset = "ScalarKey fset"

text \<open>
  Modelled from the spec: \<^verbatim>\<open>hashset_add_integer\<close> is declared outside the files at hand.
  It inserts the integer key into the set; a key already present is not added again.
\<close>

definition hashset_add_integer :: "hashset \<Rightarrow> cint \<Rightarrow> hashset" where
  "hashset_add_integer h v = finsert (IntegerKey v) h"

text \<open>
  Modelled from the spec: \<^verbatim>\<open>hashset_add_string\<close> is declared outside the files at hand.
  It inserts the text key into the set; a key already present is not added again.
\<close>

definition hashset_add_string :: "hashset \<Rightarrow> string \<Rightarrow> hashset" where
  "hashset_add_string h s = finsert (StringKey s) h"

text \<open>
  Modelled from the spec: \<^verbatim>\<open>hash_get_num_entries\<close> is declared outside the files at hand.
  It is the cardinality of the set.
\<close>

definition hash_get_num_entries :: "hashset \<Rightarrow> nat" where
  "hash_get_num_entries h = fcard h"

subsection \<open>The data of the collector\<close>

text \<open>
  \<^verbatim>\<open>minValue\<close>, \<^verbatim>\<open>maxValue\<close> and \<^verbatim>\<open>mostFrequentValue\<close> are pointers. The code stores two
  kinds of address in them: the address of the \<^verbatim>\<open>constvalue\<close> field of a \<^verbatim>\<open>Const\<close> node of
  the plan (a \<open>Datum\<close>), and the address of an \<^verbatim>\<open>int\<close> it has just allocated. Neither
  object is written after the pointer is taken, so the model keeps the object pointed to.
  \<^verbatim>\<open>*((int*) p)\<close> reads an \<^verbatim>\<open>int\<close> through the pointer; on a \<open>Datum\<close> that is its low 32 bits
  (little-endian layout).
\<close>

datatype value_ptr = PtrConstvalue Datum | PtrInt cint

fun deref_int :: "value_ptr \<Rightarrow> cint" where
  "deref_int (PtrConstvalue d) = ucast d"
| "deref_int (PtrInt v) = v"

text \<open>
  Modelled from the spec: \<^verbatim>\<open>piggyback/piggyback.h\<close>, which declares the structs of the
  collector, is not among the files at hand. The records have the fields that the two
  files read and write, with the contents that section 3 of the specification gives the
  descriptor, the column statistic and the context.
\<close>

record be_PGAttDesc =
  srctableid :: Oid
  srccolumnid :: cint
  typid :: Oid

text \<open>The flags of a column statistic are C integers holding 0 or 1; \<open>True\<close> is 1.\<close>

record ColumnStatistic =
  columnDescriptor :: be_PGAttDesc
  isNumeric :: bool
  minValue :: value_ptr
  maxValue :: value_ptr
  mostFrequentValue :: value_ptr
  distinct_status :: cint
  n_distinctIsFinal :: bool
  minValueIsFinal :: bool
  maxValueIsFinal :: bool
  mostFrequentValueIsFinal :: bool

text \<open>
  The struct behind the global pointer. \<open>root\<close> is the address of the root plan node;
  \<open>columnStatistics\<close> is \<^verbatim>\<open>resultStatistics->columnStatistics\<close>. \<open>numberOfAttributes\<close> only
  ever receives the number of attributes of a tuple descriptor, which is not negative.
\<close>

record Piggyback =
  root :: nat
  newProcessing :: bool
  columnNames :: "string list"
  numberOfAttributes :: nat
  columnStatistics :: "ColumnStatistic list"
  distinctValues :: "hashset list"
  slotValues :: "string list"
  twoColumnsCombinations :: "hashset list"

text \<open>The global pointer (\<open>None\<close> is \<^verbatim>\<open>NULL\<close>) and the text written to standard output.\<close>

record state =
  piggyback :: "Piggyback option"
  stdout :: string

subsection \<open>What the executor hands over\<close>

text \<open>
  The nodes of a qualifier as the code reads them: the first element of \<^verbatim>\<open>qual\<close> as an
  \<^verbatim>\<open>OpExpr\<close>, the head of its \<^verbatim>\<open>args\<close> as a \<^verbatim>\<open>Var\<close>, the tail of its \<^verbatim>\<open>args\<close> as a \<^verbatim>\<open>Const\<close>.
\<close>

datatype Node = Var AttrNumber | Const Datum | OtherNode

datatype Expr = OpExpr Oid "Node list" | OtherExpr

text \<open>
  An attribute of a produced row: the type from the tuple descriptor, and the value and
  null flag that \<^verbatim>\<open>slot_getattr\<close> returns once \<^verbatim>\<open>slot_getallattrs\<close> has fetched them.
  \<^verbatim>\<open>natts\<close> is the length of the list.
\<close>

record attribute =
  atttypid :: Oid
  isNull :: bool
  datum :: Datum

record TupleTableSlot =
  tts_isempty :: bool
  tts_tupleDescriptor :: "attribute list option"

text \<open>
  Two conversions that depend on memory and on floating point are taken as given:
  \<^verbatim>\<open>TextDatumGetCString\<close> (the characters a text datum points to) and the C conversion
  \<^verbatim>\<open>(float) datum\<close> assigned to an \<^verbatim>\<open>int\<close>.
\<close>

record host =
  TextDatumGetCString :: "Datum \<Rightarrow> string"
  float_to_int :: "Datum \<Rightarrow> cint"

subsection \<open>Arrays and loops\<close>

definition array_get :: "'a list \<Rightarrow> nat \<Rightarrow> 'a option" where
  "array_get xs i = (if i < length xs then Some (xs ! i) else None)"

definition array_set :: "'a list \<Rightarrow> nat \<Rightarrow> 'a \<Rightarrow> 'a list option" where
  "array_set xs i v = (if i < length xs then Some (xs[i := v]) else None)"

text \<open>\<^verbatim>\<open>for (i = i0; i < n; i++) body\<close>, where the body may fail.\<close>

function for_loop :: "nat \<Rightarrow> nat \<Rightarrow> (nat \<Rightarrow> 's \<Rightarrow> 's option) \<Rightarrow> 's \<Rightarrow> 's option" where
  "for_loop i n body s =
     (if i < n then (case body i s of None \<Rightarrow> None | Some s' \<Rightarrow> for_loop (Suc i) n body s')
      else Some s)"
  by pat_completeness auto
termination
  by (relation "measure (\<lambda>(i, n, body, s). n - i)") auto

declare for_loop.simps [simp del]

subsection \<open>LookForFilterWithEquality\<close>

text \<open>
  The search for the statistic whose descriptor names the filtered column: it stops at
  the first position that matches and otherwise ends with \<open>i = n\<close>.
\<close>

function search_column :: "Oid \<Rightarrow> cint \<Rightarrow> ColumnStatistic list \<Rightarrow> nat \<Rightarrow> nat \<Rightarrow> nat option" where
  "search_column tableOid columnId stats n i =
     (if i < n then
        (case array_get stats i of
           None \<Rightarrow> None
         | Some cs \<Rightarrow>
             if tableOid = srctableid (columnDescriptor cs)
                \<and> columnId = srccolumnid (columnDescriptor cs)
             then Some i
             else search_column tableOid columnId stats n (Suc i))
      else Some i)"
  by pat_completeness auto
termination
  by (relation "measure (\<lambda>(tableOid, columnId, stats, n, i). n - i)") auto

declare search_column.simps [simp del]

text \<open>The operator numbers the code takes for an equality.\<close>

definition is_equality_opno :: "Oid \<Rightarrow> bool" where
  "is_equality_opno opno \<longleftrightarrow>
     opno = 94 \<or> opno = 96 \<or> opno = 410 \<or> opno = 416 \<or> opno = 1862 \<or> opno = 1868
     \<or> opno = 15 \<or> opno = 532 \<or> opno = 533"

definition not_in_result_notice :: string where
  "not_in_result_notice =
     ''there are statistics results from the selection that are not part of the result table''
     @ [CHR 0x0A]"

text \<open>
  The statistic of a column that an equality pins to a literal. \<open>columnData\<close> is the
  descriptor the function has allocated; \<open>minAndMaxAndAvg\<close> is the address of the literal.
\<close>

definition pin_to_literal :: "be_PGAttDesc \<Rightarrow> value_ptr \<Rightarrow> ColumnStatistic \<Rightarrow> ColumnStatistic" where
  "pin_to_literal columnData minAndMaxAndAvg cs =
     cs\<lparr>columnDescriptor := columnData,
        isNumeric := True,
        maxValue := minAndMaxAndAvg,
        minValue := minAndMaxAndAvg,
        mostFrequentValue := minAndMaxAndAvg,
        distinct_status := 1,
        n_distinctIsFinal := True,
        minValueIsFinal := True,
        maxValueIsFinal := True,
        mostFrequentValueIsFinal := True\<rparr>"

text \<open>
  \<open>uninit\<close> is what \<^verbatim>\<open>malloc\<close> left in the field \<^verbatim>\<open>srctableid\<close> of the new descriptor, which
  the function never assigns. \<open>targetlist\<close> is \<^verbatim>\<open>result->plan->targetlist\<close>, whose length
  the function reads; an empty list is the null pointer.
\<close>

definition LookForFilterWithEquality ::
    "Oid \<Rightarrow> 't list \<Rightarrow> Oid \<Rightarrow> Expr list \<Rightarrow> state \<Rightarrow> state option" where
  "LookForFilterWithEquality uninit targetlist tableOid qual st =
     (case qual of
        [] \<Rightarrow> Some st
      | OtherExpr # _ \<Rightarrow> None
      | OpExpr opno args # _ \<Rightarrow>
          (case args of
             [] \<Rightarrow> None
           | OtherNode # _ \<Rightarrow> None
           | Const _ # _ \<Rightarrow> None
           | Var varattno # _ \<Rightarrow>
               (case piggyback st of
                  None \<Rightarrow> None
                | Some pb \<Rightarrow> do {
                    let columnId = (scast varattno :: cint);
                    i \<leftarrow> search_column tableOid columnId (columnStatistics pb)
                           (numberOfAttributes pb) 0;
                    if is_equality_opno opno then
                      (if targetlist = [] then None
                       else
                         (case last args of
                            Const constvalue \<Rightarrow>
                              (let columnData =
                                     \<lparr>srctableid = uninit, srccolumnid = columnId, typid = 20\<rparr>
                               in if i < numberOfAttributes pb then do {
                                    cs \<leftarrow> array_get (columnStatistics pb) i;
                                    stats \<leftarrow> array_set (columnStatistics pb) i
                                      (pin_to_literal columnData (PtrConstvalue constvalue) cs);
                                    Some (st\<lparr>piggyback := Some (pb\<lparr>columnStatistics := stats\<rparr>)\<rparr>)
                                  }
                                  else Some (st\<lparr>stdout := stdout st @ not_in_result_notice\<rparr>))
                          | _ \<Rightarrow> None))
                    else Some st
                  })))"

subsection \<open>The piggyback block of ExecProcNode\<close>

text \<open>The integer case of the switch, on the statistic of the column.\<close>

definition accumulate_integer :: "cint \<Rightarrow> ColumnStatistic \<Rightarrow> ColumnStatistic" where
  "accumulate_integer v cs =
     (let cs1 = cs\<lparr>isNumeric := True\<rparr>;
          cs2 = (if \<not> minValueIsFinal cs1
                    \<and> (sint v < sint (deref_int (minValue cs1)) \<or> deref_int (minValue cs1) = INT_MAX)
                 then cs1\<lparr>minValue := PtrInt v\<rparr> else cs1);
          cs3 = (if \<not> maxValueIsFinal cs2
                    \<and> (sint v > sint (deref_int (maxValue cs2)) \<or> deref_int (maxValue cs2) = INT_MIN)
                 then cs2\<lparr>maxValue := PtrInt v\<rparr> else cs2)
      in cs3)"

text \<open>The body of the first loop: the attribute at position \<open>i\<close> of the row.\<close>

definition process_attribute :: "host \<Rightarrow> nat \<Rightarrow> attribute \<Rightarrow> Piggyback \<Rightarrow> Piggyback option" where
  "process_attribute h i attr pb =
     (if isNull attr then do {
        sv \<leftarrow> array_set (slotValues pb) i '''';
        Some (pb\<lparr>slotValues := sv\<rparr>)
      }
      else if atttypid attr = INT8OID \<or> atttypid attr = INT2OID
              \<or> atttypid attr = INT2VECTOROID \<or> atttypid attr = INT4OID then do {
        cs \<leftarrow> array_get (columnStatistics pb) i;
        let val = (ucast (datum attr) :: cint);
        sv \<leftarrow> array_set (slotValues pb) i (format_d (sint val));
        let cs' = accumulate_integer val cs;
        stats \<leftarrow> array_set (columnStatistics pb) i cs';
        let pb' = pb\<lparr>columnStatistics := stats, slotValues := sv\<rparr>;
        if \<not> n_distinctIsFinal cs' then do {
          d \<leftarrow> array_get (distinctValues pb') i;
          dv \<leftarrow> array_set (distinctValues pb') i (hashset_add_integer d val);
          Some (pb'\<lparr>distinctValues := dv\<rparr>)
        }
        else Some pb'
      }
      else if atttypid attr = NUMERICOID then do {
        let val = float_to_int h (datum attr);
        sv \<leftarrow> array_set (slotValues pb) i (format_d (sint val));
        Some (pb\<lparr>slotValues := sv\<rparr>)
      }
      else if atttypid attr = BPCHAROID \<or> atttypid attr = VARCHAROID then do {
        sv \<leftarrow> array_set (slotValues pb) i (TextDatumGetCString h (datum attr));
        cs \<leftarrow> array_get (columnStatistics pb) i;
        stats \<leftarrow> array_set (columnStatistics pb) i (cs\<lparr>isNumeric := False\<rparr>);
        let pb' = pb\<lparr>columnStatistics := stats, slotValues := sv\<rparr>;
        if \<not> n_distinctIsFinal cs then do {
          d \<leftarrow> array_get (distinctValues pb') i;
          s \<leftarrow> array_get (slotValues pb') i;
          dv \<leftarrow> array_set (distinctValues pb') i (hashset_add_string d s);
          Some (pb'\<lparr>distinctValues := dv\<rparr>)
        }
        else Some pb'
      }
      else do {
        sv \<leftarrow> array_set (slotValues pb) i '''';
        Some (pb\<lparr>slotValues := sv\<rparr>)
      })"

subsection \<open>The pairs of columns\<close>

text \<open>
  The slot of a pair in \<^verbatim>\<open>twoColumnsCombinations\<close>, as
  \<^verbatim>\<open>addToTwoColumnCombinationHashSet\<close> computes it: \<open>from\<close> and \<open>to\<close> count the columns
  from 1. The C variable is an \<^verbatim>\<open>int\<close>; the model computes on unbounded integers. The
  sum only grows and ends below \<open>n (n - 1) / 2\<close> (\<open>triangular_index_range\<close> below), far
  inside the range of \<^verbatim>\<open>int\<close> for any number of columns a tuple can have.
\<close>

definition combination_index :: "nat \<Rightarrow> nat \<Rightarrow> nat \<Rightarrow> int" where
  "combination_index n from to =
     fold (\<lambda>i index. index + (int n - int i)) [1..<from] 0 + (int to - int from - 1)"

text \<open>
  The triangular mapping in the words of the specification, with \<open>from\<close> and \<open>to\<close>
  counted from 0: the sum of \<open>n - k\<close> for \<open>k\<close> from 1 to \<open>from\<close>, plus \<open>to - from - 1\<close>.
\<close>

definition triangular_index :: "nat \<Rightarrow> nat \<Rightarrow> nat \<Rightarrow> int" where
  "triangular_index n from to = (\<Sum>k = 1..from. int n - int k) + (int to - int from - 1)"

definition addToTwoColumnCombinationHashSet ::
    "nat \<Rightarrow> string \<Rightarrow> nat \<Rightarrow> string \<Rightarrow> Piggyback \<Rightarrow> Piggyback option" where
  "addToTwoColumnCombinationHashSet from valueToConcat to val pb =
     (let index = combination_index (numberOfAttributes pb) from to;
          strBuf = valueToConcat @ val
      in if index < 0 then None
         else do {
           h \<leftarrow> array_get (twoColumnsCombinations pb) (nat index);
           tcc \<leftarrow> array_set (twoColumnsCombinations pb) (nat index) (hashset_add_string h strBuf);
           Some (pb\<lparr>twoColumnsCombinations := tcc\<rparr>)
         })"

definition buildTwoColumnCombinations :: "string \<Rightarrow> nat \<Rightarrow> Piggyback \<Rightarrow> Piggyback option" where
  "buildTwoColumnCombinations valueToConcat from pb =
     (if from = numberOfAttributes pb then Some pb
      else for_loop from (numberOfAttributes pb)
             (\<lambda>i pb. do {
                val \<leftarrow> array_get (slotValues pb) i;
                addToTwoColumnCombinationHashSet from valueToConcat (i + 1) val pb
              }) pb)"

text \<open>
  The block at the end of \<^verbatim>\<open>ExecProcNode\<close>: \<open>plan\<close> is \<^verbatim>\<open>node->plan\<close> and \<open>result\<close> the
  slot the node has returned (\<open>None\<close> is \<^verbatim>\<open>NULL\<close>).
\<close>

definition ExecProcNode_piggyback ::
    "host \<Rightarrow> nat \<Rightarrow> TupleTableSlot option \<Rightarrow> state \<Rightarrow> state option" where
  "ExecProcNode_piggyback h plan result st =
     (case piggyback st of
        None \<Rightarrow> Some st
      | Some pb \<Rightarrow>
          (case result of
             None \<Rightarrow> Some st
           | Some slot \<Rightarrow>
               if plan = root pb \<and> \<not> tts_isempty slot then
                 (case tts_tupleDescriptor slot of
                    None \<Rightarrow> Some st
                  | Some attrList \<Rightarrow> do {
                      let pb0 = pb\<lparr>numberOfAttributes := length attrList\<rparr>;
                      pb1 \<leftarrow> for_loop 0 (numberOfAttributes pb0)
                               (\<lambda>i pb. process_attribute h i (attrList ! i) pb) pb0;
                      pb2 \<leftarrow> for_loop 0 (numberOfAttributes pb1)
                               (\<lambda>i pb. do {
                                  val \<leftarrow> array_get (slotValues pb) i;
                                  buildTwoColumnCombinations val (i + 1) pb
                                }) pb1;
                      Some (st\<lparr>piggyback := Some pb2\<rparr>)
                    })
               else Some st))"

text \<open>The rows a query produces, one call of \<^verbatim>\<open>ExecProcNode\<close> after the other.\<close>

fun process_rows :: "host \<Rightarrow> nat \<Rightarrow> TupleTableSlot option list \<Rightarrow> state \<Rightarrow> state option" where
  "process_rows h plan [] st = Some st"
| "process_rows h plan (r # rs) st =
     (case ExecProcNode_piggyback h plan r st of
        None \<Rightarrow> None
      | Some st' \<Rightarrow> process_rows h plan rs st')"

subsection \<open>The report\<close>

text \<open>\<^verbatim>\<open>printf("column %s (%d) has %ld distinct values.\n", columnName, i, distinctValues)\<close>\<close>

definition report_line :: "string \<Rightarrow> nat \<Rightarrow> nat \<Rightarrow> string" where
  "report_line columnName i distinctCount =
     ''column '' @ columnName @ '' ('' @ format_d (int i) @ '') has ''
     @ format_d (int distinctCount) @ '' distinct values.'' @ [CHR 0x0A]"

text \<open>\<^verbatim>\<open>list_nth\<close> of a position the list does not have is outside the list's cells.\<close>

definition printDistinctValues :: "state \<Rightarrow> state option" where
  "printDistinctValues st =
     (case piggyback st of
        None \<Rightarrow> Some st
      | Some pb \<Rightarrow>
          for_loop 0 (numberOfAttributes pb)
            (\<lambda>i st. do {
               columnName \<leftarrow> array_get (columnNames pb) i;
               h \<leftarrow> array_get (distinctValues pb) i;
               Some (st\<lparr>stdout := stdout st @ report_line columnName i (hash_get_num_entries h)\<rparr>)
             }) st)"

definition printMetaData :: "state \<Rightarrow> state option" where
  "printMetaData st = printDistinctValues st"

text \<open>The block at the head of \<^verbatim>\<open>ExecEndNode\<close>.\<close>

definition ExecEndNode_piggyback :: "state \<Rightarrow> state option" where
  "ExecEndNode_piggyback st =
     (if piggyback st \<noteq> None then do {
        st' \<leftarrow> printMetaData st;
        Some (st'\<lparr>piggyback := None\<rparr>)
      }
      else Some st)"

subsection \<open>The text of the report and example states\<close>

text \<open>The lines that \<^verbatim>\<open>printDistinctValues\<close> prints for a collector, one after the other.\<close>

definition distinct_values_report :: "Piggyback \<Rightarrow> string" where
  "distinct_values_report pb =
     concat (map (\<lambda>i. report_line (columnNames pb ! i) i
                          (hash_get_num_entries (distinctValues pb ! i)))
                 [0..<numberOfAttributes pb])"

text \<open>
  A collector for a result with the two columns \<open>a\<close> and \<open>b\<close>, which come from the
  columns 1 and 2 of the table 7, before any row: the extremes hold the sentinels and the
  sets are empty. In \<open>example_pinned\<close> the first column has been pinned to the literal 42.
\<close>

definition example_statistic :: "cint \<Rightarrow> ColumnStatistic" where
  "example_statistic col =
     \<lparr>columnDescriptor = \<lparr>srctableid = 7, srccolumnid = col, typid = 23\<rparr>,
      isNumeric = False,
      minValue = PtrInt INT_MAX,
      maxValue = PtrInt INT_MIN,
      mostFrequentValue = PtrInt 0,
      distinct_status = 0,
      n_distinctIsFinal = False,
      minValueIsFinal = False,
      maxValueIsFinal = False,
      mostFrequentValueIsFinal = False\<rparr>"

definition example_piggyback :: "ColumnStatistic list \<Rightarrow> Piggyback" where
  "example_piggyback stats =
     \<lparr>root = 1,
      newProcessing = True,
      columnNames = [''a'', ''b''],
      numberOfAttributes = 2,
      columnStatistics = stats,
      distinctValues = [{||}, {||}],
      slotValues = ['''', ''''],
      twoColumnsCombinations = [{||}]\<rparr>"

definition example_pinned :: Piggyback where
  "example_pinned =
     example_piggyback
       [pin_to_literal \<lparr>srctableid = 0, srccolumnid = 1, typid = 20\<rparr> (PtrConstvalue 42)
          (example_statistic 1),
        example_statistic 2]"

subsection \<open>Observations on the collector\<close>

text \<open>
  What the collector holds for the column at a position: its statistic, its set of
  distinct values and its slot value.
\<close>

definition column_state :: "Piggyback \<Rightarrow> nat \<Rightarrow> ColumnStatistic \<times> hashset \<times> string" where
  "column_state pb c = (columnStatistics pb ! c, distinctValues pb ! c, slotValues pb ! c)"

text \<open>
  Two collectors agree on everything but the contents of the three arrays indexed by
  column.
\<close>

definition same_frame :: "Piggyback \<Rightarrow> Piggyback \<Rightarrow> bool" where
  "same_frame pb pb' \<longleftrightarrow>
     root pb' = root pb \<and> newProcessing pb' = newProcessing pb
     \<and> columnNames pb' = columnNames pb
     \<and> numberOfAttributes pb' = numberOfAttributes pb
     \<and> twoColumnsCombinations pb' = twoColumnsCombinations pb
     \<and> length (columnStatistics pb') = length (columnStatistics pb)
     \<and> length (distinctValues pb') = length (distinctValues pb)
     \<and> length (slotValues pb') = length (slotValues pb)"

subsection \<open>Rows and further examples\<close>

text \<open>
  The arrays of the collector have room for \<open>n\<close> columns and their pairs. The arrays are
  allocated outside the two files; every property of a row is stated for collectors
  whose arrays hold the columns of the row.
\<close>

definition holds_columns :: "Piggyback \<Rightarrow> nat \<Rightarrow> bool" where
  "holds_columns pb n \<longleftrightarrow>
     n \<le> length (columnStatistics pb) \<and> n \<le> length (distinctValues pb)
     \<and> n \<le> length (slotValues pb)
     \<and> n * (n - 1) div 2 \<le> length (twoColumnsCombinations pb)"

text \<open>A slot that the root node returns: not empty, with a descriptor and its attributes.\<close>

definition produced :: "attribute list \<Rightarrow> TupleTableSlot option" where
  "produced attrList = Some \<lparr>tts_isempty = False, tts_tupleDescriptor = Some attrList\<rparr>"

text \<open>The first group of cases of the switch in \<^verbatim>\<open>ExecProcNode\<close>.\<close>

definition is_integer_family :: "Oid \<Rightarrow> bool" where
  "is_integer_family t \<longleftrightarrow> t = INT8OID \<or> t = INT2OID \<or> t = INT2VECTOROID \<or> t = INT4OID"

text \<open>
  Further example collectors: \<open>example_fresh\<close> before any predicate or row, and
  \<open>example_twice\<close>, where both output columns are the column 1 of the table 7 (as for
  \<^verbatim>\<open>SELECT a, a FROM t\<close>).
\<close>

definition example_fresh :: Piggyback where
  "example_fresh = example_piggyback [example_statistic 1, example_statistic 2]"

definition example_twice :: Piggyback where
  "example_twice = example_piggyback [example_statistic 1, example_statistic 1]"

text \<open>
  An example memory: the text datums 1, 2 and 3 point to \<open>a\<close>, \<open>b\<close> and \<open>ab\<close>, every
  other one to the empty text.
\<close>

definition example_host :: host where
  "example_host =
     \<lparr>TextDatumGetCString = (\<lambda>d. if d = 1 then ''a'' else if d = 2 then ''b''
                                  else if d = 3 then ''ab'' else []),
      float_to_int = (\<lambda>d. 0)\<rparr>"

text \<open>An attribute that is not null.\<close>

definition value_of_type :: "Oid \<Rightarrow> Datum \<Rightarrow> attribute" where
  "value_of_type t d = \<lparr>atttypid = t, isNull = False, datum = d\<rparr>"

text \<open>
  Modelled from the spec: \<^verbatim>\<open>postgres.h\<close>, which defines how a value is kept in a datum,
  is not among the files at hand. The specification takes the values of a row as given;
  the two macros are those of the release the executor belongs to. \<^verbatim>\<open>Int16GetDatum\<close>
  masks the value with \<^verbatim>\<open>0xffff\<close>, so a two-byte integer fills the low two bytes of the
  datum and the other bytes are zero; \<^verbatim>\<open>DatumGetInt16\<close> reads the low two bytes as a
  signed two-byte integer.
\<close>

definition Int16GetDatum :: "16 word \<Rightarrow> Datum" where
  "Int16GetDatum X = ucast X"

definition DatumGetInt16 :: "Datum \<Rightarrow> 16 word" where
  "DatumGetInt16 X = ucast X"

section \<open>Properties\<close>

subsection \<open>The index of a pair of columns\<close>

lemma fold_index_sum:
  "fold (\<lambda>i index. index + (int n - int i)) [a..<b] acc = acc + (\<Sum>i = a..<b. int n - int i)"
proof (induction b arbitrary: acc)
  case 0
  then show ?case by simp
next
  case (Suc b)
  then show ?case by (cases "a \<le> b") (simp_all add: algebra_simps)
qed

lemma combination_index_sum:
  "combination_index n from to = (\<Sum>i = 1..<from. int n - int i) + (int to - int from - 1)"
  by (simp add: combination_index_def fold_index_sum)

lemma combination_index_triangular:
  "combination_index n (Suc from) (Suc to) = triangular_index n from to"
  by (simp add: combination_index_sum triangular_index_def atLeastLessThanSuc_atLeastAtMost)

lemma row_start_Suc:
  "(\<Sum>k = 1..Suc f. int n - int k) = (\<Sum>k = 1..f. int n - int k) + (int n - int f - 1)"
  by simp

lemma row_start_mono:
  "f \<le> g \<Longrightarrow> g < n \<Longrightarrow> (\<Sum>k = 1..f. int n - int k) \<le> (\<Sum>k = 1..g. int n - int k)"
proof (induction g)
  case 0
  then show ?case by simp
next
  case (Suc g)
  show ?case
  proof (cases "f = Suc g")
    case True
    then show ?thesis by simp
  next
    case False
    with Suc have "(\<Sum>k = 1..f. int n - int k) \<le> (\<Sum>k = 1..g. int n - int k)" by simp
    moreover have "0 \<le> int n - int g - 1" using Suc.prems by simp
    ultimately show ?thesis by simp
  qed
qed

lemma row_start_total:
  "2 * (\<Sum>k = 1..f. int n - int k) = int f * (2 * int n - int f - 1)"
  by (induction f) (simp_all add: algebra_simps)

lemma triangular_index_lower:
  "f < t \<Longrightarrow> (\<Sum>k = 1..f. int n - int k) \<le> triangular_index n f t"
  by (simp add: triangular_index_def)

lemma triangular_index_upper:
  "t < n \<Longrightarrow> triangular_index n f t < (\<Sum>k = 1..Suc f. int n - int k)"
  by (simp add: triangular_index_def)

lemma triangular_index_less_rows:
  assumes "f < t" "t < n" "f < f'" "f' < t'" "t' < n"
  shows "triangular_index n f t < triangular_index n f' t'"
proof -
  have "triangular_index n f t < (\<Sum>k = 1..Suc f. int n - int k)"
    using assms(2) by (rule triangular_index_upper)
  also have "\<dots> \<le> (\<Sum>k = 1..f'. int n - int k)"
    using assms by (intro row_start_mono) simp_all
  also have "\<dots> \<le> triangular_index n f' t'"
    using assms(4) by (rule triangular_index_lower)
  finally show ?thesis .
qed

lemma triangular_index_inj:
  assumes "f < t" "t < n" "f' < t'" "t' < n"
    and eq: "triangular_index n f t = triangular_index n f' t'"
  shows "f = f' \<and> t = t'"
proof -
  have "\<not> f < f'" using triangular_index_less_rows [of f t n f' t'] assms by auto
  moreover have "\<not> f' < f" using triangular_index_less_rows [of f' t' n f t] assms by auto
  ultimately have "f = f'" by simp
  with eq show ?thesis by (simp add: triangular_index_def)
qed

lemma row_start_last:
  "0 < n \<Longrightarrow> (\<Sum>k = 1..n - 1. int n - int k) = int (n * (n - 1) div 2)"
proof -
  assume "0 < n"
  have "2 * (\<Sum>k = 1..n - 1. int n - int k) = int (n - 1) * (2 * int n - int (n - 1) - 1)"
    by (rule row_start_total)
  also have "\<dots> = int (n - 1) * int n" using \<open>0 < n\<close> by (simp add: of_nat_diff)
  also have "\<dots> = int (n * (n - 1))" by (simp add: mult.commute)
  finally have "2 * (\<Sum>k = 1..n - 1. int n - int k) = int (n * (n - 1))" .
  moreover have "even (n * (n - 1))" by auto
  ultimately show ?thesis by presburger
qed

lemma triangular_index_range:
  assumes "f < t" "t < n"
  shows "0 \<le> triangular_index n f t \<and> triangular_index n f t < int (n * (n - 1) div 2)"
proof -
  have "0 \<le> (\<Sum>k = 1..f. int n - int k)"
    using row_start_mono [of 0 f n] assms by simp
  then have lo: "0 \<le> triangular_index n f t"
    using triangular_index_lower [OF assms(1), of n] by simp
  have "triangular_index n f t < (\<Sum>k = 1..Suc f. int n - int k)"
    using assms(2) by (rule triangular_index_upper)
  also have "\<dots> \<le> (\<Sum>k = 1..n - 1. int n - int k)"
    using assms by (intro row_start_mono) simp_all
  also have "\<dots> = int (n * (n - 1) div 2)"
    using assms by (intro row_start_last) simp
  finally show ?thesis using lo by simp
qed

lemma triangular_index_surj:
  assumes "0 \<le> k" "k < (\<Sum>j = 1..g. int n - int j)" "g < n"
  shows "\<exists>f t. f < t \<and> t < n \<and> triangular_index n f t = k"
  using assms
proof (induction g)
  case 0
  then show ?case by simp
next
  case (Suc g)
  show ?case
  proof (cases "k < (\<Sum>j = 1..g. int n - int j)")
    case True
    with Suc show ?thesis by simp
  next
    case False
    define t where "t = Suc g + nat (k - (\<Sum>j = 1..g. int n - int j))"
    have "k - (\<Sum>j = 1..g. int n - int j) < int n - int g - 1"
      using Suc.prems(2) by simp
    with False have "g < t" "t < n" "int t = int g + 1 + (k - (\<Sum>j = 1..g. int n - int j))"
      unfolding t_def by simp_all
    then have "g < t \<and> t < n \<and> triangular_index n g t = k"
      by (simp add: triangular_index_def)
    then show ?thesis by blast
  qed
qed

text \<open>
  Claim C5. The index that \<^verbatim>\<open>addToTwoColumnCombinationHashSet\<close> computes for the columns
  \<open>from + 1\<close> and \<open>to + 1\<close> is the triangular mapping of the specification at
  \<open>from\<close> and \<open>to\<close>, and for every arity \<open>n\<close> that mapping is a bijection from the pairs
  \<open>from < to < n\<close> onto the indices from 0 up to, not including, \<open>n (n - 1) / 2\<close>: no two
  pairs share an index and every index is taken, so every pair of columns has a slot of its
  own.
\<close>

theorem triangular_index_bijection:
  "(\<forall>from to. combination_index n (Suc from) (Suc to) = triangular_index n from to)
   \<and> bij_betw (\<lambda>(from, to). triangular_index n from to)
        {(from, to). from < to \<and> to < n} {0..<int (n * (n - 1) div 2)}"
proof -
  have inj: "inj_on (\<lambda>(from, to). triangular_index n from to) {(from, to). from < to \<and> to < n}"
    by (rule inj_onI) (auto dest: triangular_index_inj)
  have sub: "(\<lambda>(from, to). triangular_index n from to) ` {(from, to). from < to \<and> to < n}
      \<subseteq> {0..<int (n * (n - 1) div 2)}"
    using triangular_index_range by auto
  have sup: "{0..<int (n * (n - 1) div 2)}
      \<subseteq> (\<lambda>(from, to). triangular_index n from to) ` {(from, to). from < to \<and> to < n}"
  proof
    fix k assume k: "k \<in> {0..<int (n * (n - 1) div 2)}"
    then have "0 < n" by (cases n) simp_all
    then have below: "k < (\<Sum>j = 1..n - 1. int n - int j)"
      using k row_start_last [OF \<open>0 < n\<close>] by simp
    have nonneg: "0 \<le> k" and last_row: "n - 1 < n" using k \<open>0 < n\<close> by simp_all
    have "\<exists>f t. f < t \<and> t < n \<and> triangular_index n f t = k"
      by (rule triangular_index_surj [OF nonneg below last_row])
    then obtain f t where "f < t" "t < n" "triangular_index n f t = k"
      by blast
    then show "k \<in> (\<lambda>(from, to). triangular_index n from to) ` {(from, to). from < to \<and> to < n}"
      by force
  qed
  show ?thesis
    using inj sub sup by (auto simp: bij_betw_def combination_index_triangular)
qed

theorem triangular_index_bijection_witness:
  "(\<forall>from to. combination_index 4 (Suc from) (Suc to) = triangular_index 4 from to)
   \<and> bij_betw (\<lambda>(from, to). triangular_index 4 from to)
        {(from, to). from < to \<and> to < 4} {0..<6}"
  using triangular_index_bijection [of 4] by simp

subsection \<open>Loops\<close>

lemma for_loop_done: "n \<le> i \<Longrightarrow> for_loop i n body s = Some s"
  by (simp add: for_loop.simps)

lemma for_loop_step:
  "i < n \<Longrightarrow> for_loop i n body s = (case body i s of None \<Rightarrow> None | Some s' \<Rightarrow> for_loop (Suc i) n body s')"
  by (subst for_loop.simps) simp

lemma for_loop_invariant:
  assumes "P i s" and "i \<le> n"
    and step: "\<And>j t. j < n \<Longrightarrow> P j t \<Longrightarrow> \<exists>t'. body j t = Some t' \<and> P (Suc j) t'"
  shows "\<exists>s'. for_loop i n body s = Some s' \<and> P n s'"
  using assms(1,2)
proof (induction "n - i" arbitrary: i s)
  case 0
  then show ?case by (simp add: for_loop_done)
next
  case (Suc d)
  then have "i < n" by simp
  then obtain t' where t': "body i s = Some t'" "P (Suc i) t'"
    using step [of i s] Suc.prems by blast
  have "d = n - Suc i" using Suc.hyps(2) by simp
  then have "\<exists>s'. for_loop (Suc i) n body t' = Some s' \<and> P n s'"
    using t'(2) \<open>i < n\<close> by (intro Suc.hyps(1)) simp_all
  with t' \<open>i < n\<close> show ?case by (simp add: for_loop_step)
qed

lemma printDistinctValues_report:
  assumes "piggyback st = Some pb"
    and "numberOfAttributes pb \<le> length (columnNames pb)"
    and "numberOfAttributes pb \<le> length (distinctValues pb)"
  shows "printDistinctValues st = Some (st\<lparr>stdout := stdout st @ distinct_values_report pb\<rparr>)"
proof -
  let ?line = "\<lambda>i. report_line (columnNames pb ! i) i (hash_get_num_entries (distinctValues pb ! i))"
  let ?P = "\<lambda>j t. t = st\<lparr>stdout := stdout st @ concat (map ?line [0..<j])\<rparr>"
  let ?body = "\<lambda>i st. do {
               columnName \<leftarrow> array_get (columnNames pb) i;
               h \<leftarrow> array_get (distinctValues pb) i;
               Some (st\<lparr>stdout := stdout st @ report_line columnName i (hash_get_num_entries h)\<rparr>)
             }"
  have "\<exists>s'. for_loop 0 (numberOfAttributes pb) ?body st = Some s' \<and> ?P (numberOfAttributes pb) s'"
  proof (rule for_loop_invariant [where P = ?P])
    show "?P 0 st" by simp
    show "0 \<le> numberOfAttributes pb" by simp
    fix j t
    assume "j < numberOfAttributes pb" and "?P j t"
    then show "\<exists>t'. ?body j t = Some t' \<and> ?P (Suc j) t'"
      using assms(2,3) by (simp add: array_get_def)
  qed
  then show ?thesis
    using assms(1) by (simp add: printDistinctValues_def distinct_values_report_def)
qed

subsection \<open>The report and the end of the execution\<close>

lemma format_d_digit: "0 \<le> v \<Longrightarrow> v < 10 \<Longrightarrow> format_d v = [''0123456789'' ! nat v]"
  by (simp add: format_d_def decimal_digits.simps)

text \<open>
  Claim C6, as the code has it. For a collector whose arrays hold its columns,
  \<^verbatim>\<open>printDistinctValues\<close> prints for every column position, in order, exactly one line
  \<^verbatim>\<open>column <name> (<position>) has <count> distinct values.\<close> and the count is the
  cardinality of the column's set of distinct values, whether the column is final or not:
  the function does not look at the finality flags and prints no note.
\<close>

theorem report_counts_every_column:
  assumes "piggyback st = Some pb"
    and "numberOfAttributes pb \<le> length (columnNames pb)"
    and "numberOfAttributes pb \<le> length (distinctValues pb)"
  shows "printDistinctValues st =
     Some (st\<lparr>stdout := stdout st @
       concat (map (\<lambda>i. report_line (columnNames pb ! i) i (fcard (distinctValues pb ! i)))
                   [0..<numberOfAttributes pb])\<rparr>)"
  using printDistinctValues_report [OF assms]
  by (simp add: distinct_values_report_def hash_get_num_entries_def)

theorem report_counts_every_column_witness:
  "printDistinctValues \<lparr>piggyback = Some example_pinned, stdout = []\<rparr> =
     Some (\<lparr>piggyback = Some example_pinned, stdout = []\<rparr>\<lparr>stdout := [] @
       concat (map (\<lambda>i. report_line (columnNames example_pinned ! i) i
                          (fcard (distinctValues example_pinned ! i)))
                   [0..<numberOfAttributes example_pinned])\<rparr>)"
  using report_counts_every_column [of "\<lparr>piggyback = Some example_pinned, stdout = []\<rparr>" example_pinned]
  by (simp add: example_pinned_def example_piggyback_def)

text \<open>
  The claim as first stated asks for a note in place of the count when the column is
  final. In \<open>example_pinned\<close> the first column is final, and its line is the count line
  with the cardinality of its (empty) set.
\<close>

theorem report_of_final_column_counterexample:
  "n_distinctIsFinal (columnStatistics example_pinned ! 0)
   \<and> printDistinctValues \<lparr>piggyback = Some example_pinned, stdout = []\<rparr> =
       Some \<lparr>piggyback = Some example_pinned,
             stdout = ''column a (0) has 0 distinct values.'' @ [CHR 0x0A]
                      @ ''column b (1) has 0 distinct values.'' @ [CHR 0x0A]\<rparr>"
proof -
  have sizes: "numberOfAttributes example_pinned \<le> length (columnNames example_pinned)"
    "numberOfAttributes example_pinned \<le> length (distinctValues example_pinned)"
    by (simp_all add: example_pinned_def example_piggyback_def)
  have upt2: "[0..<2] = [0, 1]" by (simp add: upt_rec)
  have "distinct_values_report example_pinned =
      ''column a (0) has 0 distinct values.'' @ [CHR 0x0A]
      @ ''column b (1) has 0 distinct values.'' @ [CHR 0x0A]"
    by (simp add: distinct_values_report_def example_pinned_def example_piggyback_def upt2
        report_line_def hash_get_num_entries_def format_d_digit fcard_fempty)
  moreover have "n_distinctIsFinal (columnStatistics example_pinned ! 0)"
    by (simp add: example_pinned_def example_piggyback_def pin_to_literal_def)
  ultimately show ?thesis
    using printDistinctValues_report [of "\<lparr>piggyback = Some example_pinned, stdout = []\<rparr>" example_pinned] sizes
    by simp
qed

text \<open>
  Claim C8. The block of \<^verbatim>\<open>ExecEndNode\<close> runs the report only while the global pointer
  is set and clears the pointer afterwards: the first call prints the report and drops the
  collector, and a call after it returns the state it was given, so it changes nothing and
  prints nothing; neither call faults.
\<close>

theorem finalize_twice_is_noop:
  assumes "piggyback st = Some pb"
    and "numberOfAttributes pb \<le> length (columnNames pb)"
    and "numberOfAttributes pb \<le> length (distinctValues pb)"
  shows "\<exists>st1. ExecEndNode_piggyback st = Some st1
           \<and> stdout st1 = stdout st @ distinct_values_report pb
           \<and> piggyback st1 = None
           \<and> ExecEndNode_piggyback st1 = Some st1
           \<and> printDistinctValues st1 = Some st1"
  using printDistinctValues_report [OF assms] assms(1)
  by (simp add: ExecEndNode_piggyback_def printMetaData_def printDistinctValues_def)

theorem finalize_twice_is_noop_witness:
  "\<exists>st1. ExecEndNode_piggyback \<lparr>piggyback = Some example_pinned, stdout = []\<rparr> = Some st1
           \<and> stdout st1 = [] @ distinct_values_report example_pinned
           \<and> piggyback st1 = None
           \<and> ExecEndNode_piggyback st1 = Some st1
           \<and> printDistinctValues st1 = Some st1"
  using finalize_twice_is_noop [of "\<lparr>piggyback = Some example_pinned, stdout = []\<rparr>" example_pinned]
  by (simp add: example_pinned_def example_piggyback_def)

subsection \<open>One attribute of a row\<close>

lemma same_frame_refl: "same_frame pb pb"
  by (simp add: same_frame_def)

lemma same_frame_trans: "same_frame a b \<Longrightarrow> same_frame b c \<Longrightarrow> same_frame a c"
  by (simp add: same_frame_def)

lemma accumulate_integer_flags:
  "n_distinctIsFinal (accumulate_integer v cs) = n_distinctIsFinal cs"
  "minValueIsFinal (accumulate_integer v cs) = minValueIsFinal cs"
  "maxValueIsFinal (accumulate_integer v cs) = maxValueIsFinal cs"
  "mostFrequentValueIsFinal (accumulate_integer v cs) = mostFrequentValueIsFinal cs"
  by (simp_all add: accumulate_integer_def Let_def)

lemma accumulate_integer_final:
  "minValueIsFinal cs \<Longrightarrow> minValue (accumulate_integer v cs) = minValue cs"
  "maxValueIsFinal cs \<Longrightarrow> maxValue (accumulate_integer v cs) = maxValue cs"
  by (simp_all add: accumulate_integer_def Let_def)

lemma process_attribute_frame:
  "process_attribute h i a pb = Some pb' \<Longrightarrow> same_frame pb pb'"
  by (auto simp: process_attribute_def same_frame_def array_get_def array_set_def Let_def
      split: if_splits bind_splits)

lemma process_attribute_others:
  "process_attribute h i a pb = Some pb' \<Longrightarrow> c \<noteq> i \<Longrightarrow> column_state pb' c = column_state pb c"
  by (auto simp: process_attribute_def column_state_def array_get_def array_set_def Let_def
      split: if_splits bind_splits)

lemma process_attribute_succeeds:
  "i < length (columnStatistics pb) \<Longrightarrow> i < length (distinctValues pb)
   \<Longrightarrow> i < length (slotValues pb) \<Longrightarrow> \<exists>pb'. process_attribute h i a pb = Some pb'"
  by (simp add: process_attribute_def array_get_def array_set_def Let_def)

lemma process_attribute_lock:
  assumes "process_attribute h i a pb = Some pb'"
  shows "n_distinctIsFinal (columnStatistics pb' ! c) = n_distinctIsFinal (columnStatistics pb ! c)
     \<and> minValueIsFinal (columnStatistics pb' ! c) = minValueIsFinal (columnStatistics pb ! c)
     \<and> maxValueIsFinal (columnStatistics pb' ! c) = maxValueIsFinal (columnStatistics pb ! c)
     \<and> mostFrequentValueIsFinal (columnStatistics pb' ! c)
         = mostFrequentValueIsFinal (columnStatistics pb ! c)
     \<and> (minValueIsFinal (columnStatistics pb ! c)
          \<longrightarrow> minValue (columnStatistics pb' ! c) = minValue (columnStatistics pb ! c))
     \<and> (maxValueIsFinal (columnStatistics pb ! c)
          \<longrightarrow> maxValue (columnStatistics pb' ! c) = maxValue (columnStatistics pb ! c))
     \<and> (n_distinctIsFinal (columnStatistics pb ! c)
          \<longrightarrow> distinctValues pb' ! c = distinctValues pb ! c)"
proof (cases "c = i")
  case False
  then show ?thesis
    using process_attribute_others [OF assms, of c] by (simp add: column_state_def)
next
  case True
  with assms show ?thesis
    by (auto simp: process_attribute_def array_get_def array_set_def Let_def
        accumulate_integer_flags accumulate_integer_final
        split: if_splits bind_splits)
qed

lemma process_attribute_integer:
  assumes "process_attribute h i a pb = Some pb'"
    and "\<not> isNull a"
    and "atttypid a = INT8OID \<or> atttypid a = INT2OID \<or> atttypid a = INT2VECTOROID
         \<or> atttypid a = INT4OID"
  shows "column_state pb' i =
     (accumulate_integer (ucast (datum a)) (columnStatistics pb ! i),
      (if n_distinctIsFinal (columnStatistics pb ! i) then distinctValues pb ! i
       else hashset_add_integer (distinctValues pb ! i) (ucast (datum a))),
      format_d (sint (ucast (datum a) :: cint)))"
  using assms
  by (auto simp: process_attribute_def column_state_def array_get_def array_set_def Let_def
      accumulate_integer_flags split: if_splits bind_splits)

lemma process_attribute_numeric:
  assumes "process_attribute h i a pb = Some pb'"
    and "\<not> isNull a"
    and "atttypid a = NUMERICOID"
  shows "column_state pb' i =
     (columnStatistics pb ! i, distinctValues pb ! i,
      format_d (sint (float_to_int h (datum a))))"
  using assms
  by (auto simp: process_attribute_def column_state_def array_get_def array_set_def Let_def
      NUMERICOID_def INT8OID_def INT2OID_def INT2VECTOROID_def INT4OID_def
      split: if_splits bind_splits)

lemma attribute_loop:
  assumes "n \<le> length (columnStatistics pb0)" and "n \<le> length (distinctValues pb0)"
    and "n \<le> length (slotValues pb0)"
  shows "\<exists>pb1. for_loop 0 n (\<lambda>i pb. process_attribute h i (attrs ! i) pb) pb0 = Some pb1
     \<and> same_frame pb0 pb1
     \<and> (\<forall>c<n. \<exists>pbc pbc'. same_frame pb0 pbc \<and> column_state pbc c = column_state pb0 c
            \<and> process_attribute h c (attrs ! c) pbc = Some pbc'
            \<and> column_state pb1 c = column_state pbc' c)
     \<and> (\<forall>c\<ge>n. column_state pb1 c = column_state pb0 c)"
proof -
  let ?done = "\<lambda>t c. \<exists>pbc pbc'. same_frame pb0 pbc \<and> column_state pbc c = column_state pb0 c
            \<and> process_attribute h c (attrs ! c) pbc = Some pbc'
            \<and> column_state t c = column_state pbc' c"
  let ?P = "\<lambda>j t. same_frame pb0 t \<and> (\<forall>c<j. ?done t c)
            \<and> (\<forall>c\<ge>j. column_state t c = column_state pb0 c)"
  have "\<exists>pb1. for_loop 0 n (\<lambda>i pb. process_attribute h i (attrs ! i) pb) pb0 = Some pb1
      \<and> ?P n pb1"
  proof (rule for_loop_invariant [where P = ?P])
    show "?P 0 pb0" by (simp add: same_frame_refl)
    show "0 \<le> n" by simp
    fix j t
    assume j: "j < n" and P: "?P j t"
    from P have fr: "same_frame pb0 t" by simp
    with assms j have "j < length (columnStatistics t)" "j < length (distinctValues t)"
      "j < length (slotValues t)"
      by (simp_all add: same_frame_def)
    then obtain t' where t': "process_attribute h j (attrs ! j) t = Some t'"
      using process_attribute_succeeds by blast
    have fr': "same_frame pb0 t'"
      using fr process_attribute_frame [OF t'] by (rule same_frame_trans)
    have others: "column_state t' c = column_state t c" if "c \<noteq> j" for c
      using process_attribute_others [OF t' that] .
    have before: "?done t' c" if "c < j" for c
      using P that others [of c] by simp
    have at: "?done t' j"
      using P fr t' by auto
    have after: "column_state t' c = column_state pb0 c" if "Suc j \<le> c" for c
      using P that others [of c] by simp
    have "\<forall>c<Suc j. ?done t' c"
      using before at by (auto simp: less_Suc_eq)
    with fr' after t' show "\<exists>t'. process_attribute h j (attrs ! j) t = Some t' \<and> ?P (Suc j) t'"
      by blast
  qed
  then show ?thesis by blast
qed

subsection \<open>The pairs of a row\<close>

lemma triangular_index_nat_inj:
  assumes "f < t" "t < n" "f' < t'" "t' < n"
    and "nat (triangular_index n f t) = nat (triangular_index n f' t')"
  shows "f = f' \<and> t = t'"
proof -
  have "0 \<le> triangular_index n f t" "0 \<le> triangular_index n f' t'"
    using assms triangular_index_range by simp_all
  with assms(5) have "triangular_index n f t = triangular_index n f' t'" by simp
  with assms show ?thesis by (intro triangular_index_inj)
qed

lemma triangular_index_slot:
  assumes "f < t" "t < n" "n * (n - 1) div 2 \<le> m"
  shows "nat (triangular_index n f t) < m"
proof -
  have "0 \<le> triangular_index n f t" "triangular_index n f t < int (n * (n - 1) div 2)"
    using triangular_index_range [OF assms(1,2)] by simp_all
  with assms(3) show ?thesis by linarith
qed

lemma addToTwoColumnCombinationHashSet_result:
  assumes "f < t" and "t < numberOfAttributes pb"
    and "numberOfAttributes pb * (numberOfAttributes pb - 1) div 2
         \<le> length (twoColumnsCombinations pb)"
  shows "addToTwoColumnCombinationHashSet (Suc f) v1 (Suc t) v2 pb =
     Some (pb\<lparr>twoColumnsCombinations :=
       (twoColumnsCombinations pb)[nat (triangular_index (numberOfAttributes pb) f t) :=
          finsert (StringKey (v1 @ v2))
            (twoColumnsCombinations pb ! nat (triangular_index (numberOfAttributes pb) f t))]\<rparr>)"
proof -
  let ?k = "triangular_index (numberOfAttributes pb) f t"
  have "0 \<le> ?k" "?k < int (numberOfAttributes pb * (numberOfAttributes pb - 1) div 2)"
    using triangular_index_range [OF assms(1,2)] by simp_all
  then have "0 \<le> ?k" "nat ?k < length (twoColumnsCombinations pb)"
    using assms(3) by simp_all
  then show ?thesis
    by (simp add: addToTwoColumnCombinationHashSet_def combination_index_triangular
        array_get_def array_set_def hashset_add_string_def Let_def)
qed

lemma buildTwoColumnCombinations_result:
  assumes n: "numberOfAttributes pb = n" and f: "f < n"
    and tcc: "n * (n - 1) div 2 \<le> length (twoColumnsCombinations pb)"
    and slots: "n \<le> length (slotValues pb)"
  shows "\<exists>T. buildTwoColumnCombinations v (Suc f) pb = Some (pb\<lparr>twoColumnsCombinations := T\<rparr>)
     \<and> length T = length (twoColumnsCombinations pb)
     \<and> (\<forall>f' t'. f' < t' \<and> t' < n \<longrightarrow>
           T ! nat (triangular_index n f' t') =
             (if f' = f
              then finsert (StringKey (v @ slotValues pb ! t'))
                     (twoColumnsCombinations pb ! nat (triangular_index n f' t'))
              else twoColumnsCombinations pb ! nat (triangular_index n f' t')))"
proof (cases "Suc f = n")
  case True
  then have "buildTwoColumnCombinations v (Suc f) pb
      = Some (pb\<lparr>twoColumnsCombinations := twoColumnsCombinations pb\<rparr>)"
    using n by (simp add: buildTwoColumnCombinations_def)
  moreover have "\<forall>f' t'. f' < t' \<and> t' < n \<longrightarrow> f' \<noteq> f"
    using True by auto
  ultimately show ?thesis
    by (intro exI [where x = "twoColumnsCombinations pb"]) auto
next
  case False
  let ?tcc = "twoColumnsCombinations pb"
  let ?k = "\<lambda>f' t'. nat (triangular_index n f' t')"
  let ?body = "\<lambda>i pb. do {
                val \<leftarrow> array_get (slotValues pb) i;
                addToTwoColumnCombinationHashSet (Suc f) v (i + 1) val pb
              }"
  let ?I = "\<lambda>j t. f < j \<and> (\<exists>T. t = pb\<lparr>twoColumnsCombinations := T\<rparr> \<and> length T = length ?tcc
     \<and> (\<forall>f' t'. f' < t' \<and> t' < n \<longrightarrow>
           T ! ?k f' t' =
             (if f' = f \<and> t' < j
              then finsert (StringKey (v @ slotValues pb ! t')) (?tcc ! ?k f' t')
              else ?tcc ! ?k f' t')))"
  have "\<exists>pb'. for_loop (Suc f) n ?body pb = Some pb' \<and> ?I n pb'"
  proof (rule for_loop_invariant [where P = ?I])
    have "\<forall>f' t'. f' < t' \<longrightarrow> \<not> (f' = f \<and> t' < Suc f)"
      by auto
    then show "?I (Suc f) pb"
      by (intro conjI exI [where x = ?tcc]) auto
    show "Suc f \<le> n" using f by simp
    fix j t
    assume j: "j < n" and I: "?I j t"
    then obtain T where fj: "f < j" and t: "t = pb\<lparr>twoColumnsCombinations := T\<rparr>"
      and len: "length T = length ?tcc"
      and T: "\<And>f' t'. f' < t' \<Longrightarrow> t' < n \<Longrightarrow> T ! ?k f' t' =
             (if f' = f \<and> t' < j
              then finsert (StringKey (v @ slotValues pb ! t')) (?tcc ! ?k f' t')
              else ?tcc ! ?k f' t')"
      by blast
    let ?T' = "T[?k f j := finsert (StringKey (v @ slotValues pb ! j)) (T ! ?k f j)]"
    have get: "array_get (slotValues t) j = Some (slotValues pb ! j)"
      using j slots t by (simp add: array_get_def)
    have "addToTwoColumnCombinationHashSet (Suc f) v (Suc j) (slotValues pb ! j) t =
        Some (t\<lparr>twoColumnsCombinations := ?T'\<rparr>)"
      using addToTwoColumnCombinationHashSet_result [of f j t v "slotValues pb ! j"]
        fj j n tcc len t by simp
    with get have body: "?body j t = Some (pb\<lparr>twoColumnsCombinations := ?T'\<rparr>)"
      using t by simp
    have kfj: "?k f j < length T"
      using triangular_index_slot [OF fj j tcc] len by simp
    have Tfj: "T ! ?k f j = ?tcc ! ?k f j"
      using T [OF fj j] by simp
    have "?T' ! ?k f' t' =
             (if f' = f \<and> t' < Suc j
              then finsert (StringKey (v @ slotValues pb ! t')) (?tcc ! ?k f' t')
              else ?tcc ! ?k f' t')" if ft: "f' < t'" "t' < n" for f' t'
    proof (cases "?k f' t' = ?k f j")
      case True
      then have "f' = f \<and> t' = j"
        using triangular_index_nat_inj [OF ft fj j] by simp
      then show ?thesis using kfj Tfj by simp
    next
      case False
      then have "\<not> (f' = f \<and> t' = j)" by auto
      then have "(f' = f \<and> t' < Suc j) = (f' = f \<and> t' < j)" by auto
      with False T [OF ft] show ?thesis by simp
    qed
    then have "?I (Suc j) (pb\<lparr>twoColumnsCombinations := ?T'\<rparr>)"
      using fj len by auto
    with body show "\<exists>t'. ?body j t = Some t' \<and> ?I (Suc j) t'" by blast
  qed
  then obtain T where "for_loop (Suc f) n ?body pb = Some (pb\<lparr>twoColumnsCombinations := T\<rparr>)"
    and "length T = length ?tcc"
    and "\<And>f' t'. f' < t' \<Longrightarrow> t' < n \<Longrightarrow> T ! ?k f' t' =
             (if f' = f \<and> t' < n
              then finsert (StringKey (v @ slotValues pb ! t')) (?tcc ! ?k f' t')
              else ?tcc ! ?k f' t')"
    by blast
  moreover have "buildTwoColumnCombinations v (Suc f) pb = for_loop (Suc f) n ?body pb"
    using False n by (simp add: buildTwoColumnCombinations_def)
  ultimately show ?thesis by auto
qed

lemma pair_loop:
  assumes n: "numberOfAttributes pb = n"
    and tcc: "n * (n - 1) div 2 \<le> length (twoColumnsCombinations pb)"
    and slots: "n \<le> length (slotValues pb)"
  shows "\<exists>T. for_loop 0 n
            (\<lambda>i pb. do {
               val \<leftarrow> array_get (slotValues pb) i;
               buildTwoColumnCombinations val (i + 1) pb
             }) pb = Some (pb\<lparr>twoColumnsCombinations := T\<rparr>)
     \<and> length T = length (twoColumnsCombinations pb)
     \<and> (\<forall>f t. f < t \<and> t < n \<longrightarrow>
           T ! nat (triangular_index n f t) =
             finsert (StringKey (slotValues pb ! f @ slotValues pb ! t))
               (twoColumnsCombinations pb ! nat (triangular_index n f t)))"
proof -
  let ?tcc = "twoColumnsCombinations pb"
  let ?k = "\<lambda>f t. nat (triangular_index n f t)"
  let ?key = "\<lambda>f t. StringKey (slotValues pb ! f @ slotValues pb ! t)"
  let ?body = "\<lambda>i pb. do {
               val \<leftarrow> array_get (slotValues pb) i;
               buildTwoColumnCombinations val (i + 1) pb
             }"
  let ?O = "\<lambda>i t. \<exists>T. t = pb\<lparr>twoColumnsCombinations := T\<rparr> \<and> length T = length ?tcc
     \<and> (\<forall>f' t'. f' < t' \<and> t' < n \<longrightarrow>
           T ! ?k f' t' = (if f' < i then finsert (?key f' t') (?tcc ! ?k f' t')
                           else ?tcc ! ?k f' t'))"
  have "\<exists>pb'. for_loop 0 n ?body pb = Some pb' \<and> ?O n pb'"
  proof (rule for_loop_invariant [where P = ?O])
    show "?O 0 pb"
      by (intro exI [where x = ?tcc]) simp
    show "0 \<le> n" by simp
    fix i t
    assume i: "i < n" and O: "?O i t"
    then obtain T where t: "t = pb\<lparr>twoColumnsCombinations := T\<rparr>"
      and len: "length T = length ?tcc"
      and T: "\<And>f' t'. f' < t' \<Longrightarrow> t' < n \<Longrightarrow>
           T ! ?k f' t' = (if f' < i then finsert (?key f' t') (?tcc ! ?k f' t')
                           else ?tcc ! ?k f' t')"
      by blast
    have get: "array_get (slotValues t) i = Some (slotValues pb ! i)"
      using i slots t by (simp add: array_get_def)
    have "numberOfAttributes t = n" "n * (n - 1) div 2 \<le> length (twoColumnsCombinations t)"
      "n \<le> length (slotValues t)"
      using n tcc slots len t by simp_all
    from buildTwoColumnCombinations_result [OF this(1) i this(2,3), of "slotValues pb ! i"]
    obtain T' where build: "buildTwoColumnCombinations (slotValues pb ! i) (Suc i) t
          = Some (t\<lparr>twoColumnsCombinations := T'\<rparr>)"
      and len': "length T' = length (twoColumnsCombinations t)"
      and T': "\<And>f' t'. f' < t' \<Longrightarrow> t' < n \<Longrightarrow>
           T' ! ?k f' t' =
             (if f' = i
              then finsert (StringKey (slotValues pb ! i @ slotValues t ! t'))
                     (twoColumnsCombinations t ! ?k f' t')
              else twoColumnsCombinations t ! ?k f' t')"
      by blast
    have body: "?body i t = Some (pb\<lparr>twoColumnsCombinations := T'\<rparr>)"
      using get build t by simp
    have "T' ! ?k f' t' = (if f' < Suc i then finsert (?key f' t') (?tcc ! ?k f' t')
                           else ?tcc ! ?k f' t')" if ft: "f' < t'" "t' < n" for f' t'
    proof -
      have a: "T' ! ?k f' t' =
          (if f' = i then finsert (?key f' t') (T ! ?k f' t') else T ! ?k f' t')"
        using T' [OF ft] t by simp
      note b = T [OF ft]
      show ?thesis
      proof (cases "f' = i")
        case True
        with a b show ?thesis by simp
      next
        case False
        then have "(f' < Suc i) = (f' < i)" by auto
        with False a b show ?thesis by simp
      qed
    qed
    then have "?O (Suc i) (pb\<lparr>twoColumnsCombinations := T'\<rparr>)"
      using len len' t by auto
    with body show "\<exists>t'. ?body i t = Some t' \<and> ?O (Suc i) t'" by blast
  qed
  then obtain T where "for_loop 0 n ?body pb = Some (pb\<lparr>twoColumnsCombinations := T\<rparr>)"
    and "length T = length ?tcc"
    and "\<And>f' t'. f' < t' \<Longrightarrow> t' < n \<Longrightarrow>
           T ! ?k f' t' = (if f' < n then finsert (?key f' t') (?tcc ! ?k f' t')
                           else ?tcc ! ?k f' t')"
    by blast
  then show ?thesis
    by (intro exI [where x = T]) auto
qed

subsection \<open>One row\<close>

lemma ExecProcNode_row:
  assumes st: "piggyback st = Some pb" and plan: "plan = root pb"
    and slot: "\<not> tts_isempty slot" "tts_tupleDescriptor slot = Some attrs"
    and sizes: "length attrs \<le> length (columnStatistics pb)"
      "length attrs \<le> length (distinctValues pb)"
      "length attrs \<le> length (slotValues pb)"
      "length attrs * (length attrs - 1) div 2 \<le> length (twoColumnsCombinations pb)"
  shows "\<exists>pb1 T. ExecProcNode_piggyback h plan (Some slot) st
        = Some (st\<lparr>piggyback := Some (pb1\<lparr>twoColumnsCombinations := T\<rparr>)\<rparr>)
     \<and> same_frame (pb\<lparr>numberOfAttributes := length attrs\<rparr>) pb1
     \<and> (\<forall>c<length attrs. \<exists>pbc pbc'.
            same_frame (pb\<lparr>numberOfAttributes := length attrs\<rparr>) pbc
            \<and> column_state pbc c = column_state pb c
            \<and> process_attribute h c (attrs ! c) pbc = Some pbc'
            \<and> column_state pb1 c = column_state pbc' c)
     \<and> (\<forall>c\<ge>length attrs. column_state pb1 c = column_state pb c)
     \<and> length T = length (twoColumnsCombinations pb)
     \<and> (\<forall>f t. f < t \<and> t < length attrs \<longrightarrow>
           T ! nat (triangular_index (length attrs) f t) =
             finsert (StringKey (slotValues pb1 ! f @ slotValues pb1 ! t))
               (twoColumnsCombinations pb ! nat (triangular_index (length attrs) f t)))"
proof -
  let ?n = "length attrs"
  let ?pb0 = "pb\<lparr>numberOfAttributes := ?n\<rparr>"
  have cs0: "column_state ?pb0 c = column_state pb c" for c
    by (simp add: column_state_def)
  have "?n \<le> length (columnStatistics ?pb0)" "?n \<le> length (distinctValues ?pb0)"
    "?n \<le> length (slotValues ?pb0)"
    using sizes by simp_all
  from attribute_loop [OF this, of h attrs]
  obtain pb1 where loop1: "for_loop 0 ?n (\<lambda>i pb. process_attribute h i (attrs ! i) pb) ?pb0 = Some pb1"
    and fr: "same_frame ?pb0 pb1"
    and cols: "\<forall>c<?n. \<exists>pbc pbc'. same_frame ?pb0 pbc \<and> column_state pbc c = column_state ?pb0 c
            \<and> process_attribute h c (attrs ! c) pbc = Some pbc'
            \<and> column_state pb1 c = column_state pbc' c"
    and rest: "\<forall>c\<ge>?n. column_state pb1 c = column_state ?pb0 c"
    by blast
  have pb1: "numberOfAttributes pb1 = ?n"
    "?n * (?n - 1) div 2 \<le> length (twoColumnsCombinations pb1)"
    "?n \<le> length (slotValues pb1)"
    "twoColumnsCombinations pb1 = twoColumnsCombinations pb"
    using fr sizes by (simp_all add: same_frame_def)
  from pair_loop [OF pb1(1,2,3)]
  obtain T where loop2: "for_loop 0 ?n
            (\<lambda>i pb. do {
               val \<leftarrow> array_get (slotValues pb) i;
               buildTwoColumnCombinations val (i + 1) pb
             }) pb1 = Some (pb1\<lparr>twoColumnsCombinations := T\<rparr>)"
    and len: "length T = length (twoColumnsCombinations pb1)"
    and T: "\<forall>f t. f < t \<and> t < ?n \<longrightarrow>
           T ! nat (triangular_index ?n f t) =
             finsert (StringKey (slotValues pb1 ! f @ slotValues pb1 ! t))
               (twoColumnsCombinations pb1 ! nat (triangular_index ?n f t))"
    by blast
  have "ExecProcNode_piggyback h plan (Some slot) st
        = Some (st\<lparr>piggyback := Some (pb1\<lparr>twoColumnsCombinations := T\<rparr>)\<rparr>)"
    using st plan slot loop1 loop2 pb1(1) by (simp add: ExecProcNode_piggyback_def)
  moreover have "\<forall>c<?n. \<exists>pbc pbc'. same_frame ?pb0 pbc \<and> column_state pbc c = column_state pb c
            \<and> process_attribute h c (attrs ! c) pbc = Some pbc'
            \<and> column_state pb1 c = column_state pbc' c"
    using cols by (simp only: cs0)
  moreover have "\<forall>c\<ge>?n. column_state pb1 c = column_state pb c"
    using rest by (simp only: cs0)
  moreover have "length T = length (twoColumnsCombinations pb)"
    using len pb1(4) by simp
  moreover have "\<forall>f t. f < t \<and> t < ?n \<longrightarrow>
           T ! nat (triangular_index ?n f t) =
             finsert (StringKey (slotValues pb1 ! f @ slotValues pb1 ! t))
               (twoColumnsCombinations pb ! nat (triangular_index ?n f t))"
    using T pb1(4) by simp
  ultimately show ?thesis
    using fr by blast
qed

subsection \<open>Rows of a query\<close>

lemma column_state_tcc [simp]:
  "column_state (pb\<lparr>twoColumnsCombinations := T\<rparr>) c = column_state pb c"
  by (simp add: column_state_def)

lemma row_result:
  assumes "piggyback st = Some pb" and "plan = root pb" and "holds_columns pb (length attrs)"
  shows "\<exists>pb1 T. ExecProcNode_piggyback h plan (produced attrs) st
        = Some (st\<lparr>piggyback := Some (pb1\<lparr>twoColumnsCombinations := T\<rparr>)\<rparr>)
     \<and> same_frame (pb\<lparr>numberOfAttributes := length attrs\<rparr>) pb1
     \<and> (\<forall>c<length attrs. \<exists>pbc pbc'.
            same_frame (pb\<lparr>numberOfAttributes := length attrs\<rparr>) pbc
            \<and> column_state pbc c = column_state pb c
            \<and> process_attribute h c (attrs ! c) pbc = Some pbc'
            \<and> column_state pb1 c = column_state pbc' c)
     \<and> (\<forall>c\<ge>length attrs. column_state pb1 c = column_state pb c)
     \<and> length T = length (twoColumnsCombinations pb)
     \<and> (\<forall>f t. f < t \<and> t < length attrs \<longrightarrow>
           T ! nat (triangular_index (length attrs) f t) =
             finsert (StringKey (slotValues pb1 ! f @ slotValues pb1 ! t))
               (twoColumnsCombinations pb ! nat (triangular_index (length attrs) f t)))"
  unfolding produced_def
  using assms by (intro ExecProcNode_row) (simp_all add: holds_columns_def)

lemma row_total:
  assumes "piggyback st = Some pb" and "plan = root pb" and "holds_columns pb (length attrs)"
  shows "\<exists>pb'. ExecProcNode_piggyback h plan (produced attrs) st
           = Some (st\<lparr>piggyback := Some pb'\<rparr>)"
  using row_result [OF assms, of h] by blast

lemma row_frame:
  assumes "piggyback st = Some pb" and "plan = root pb" and "holds_columns pb (length attrs)"
    and "ExecProcNode_piggyback h plan (produced attrs) st = Some (st\<lparr>piggyback := Some pb'\<rparr>)"
  shows "root pb' = root pb \<and> columnNames pb' = columnNames pb
     \<and> numberOfAttributes pb' = length attrs
     \<and> length (columnStatistics pb') = length (columnStatistics pb)
     \<and> length (distinctValues pb') = length (distinctValues pb)
     \<and> length (slotValues pb') = length (slotValues pb)
     \<and> length (twoColumnsCombinations pb') = length (twoColumnsCombinations pb)"
proof -
  from row_result [OF assms(1-3), of h]
  obtain pb1 T where "ExecProcNode_piggyback h plan (produced attrs) st
        = Some (st\<lparr>piggyback := Some (pb1\<lparr>twoColumnsCombinations := T\<rparr>)\<rparr>)"
    and fr: "same_frame (pb\<lparr>numberOfAttributes := length attrs\<rparr>) pb1"
    and len: "length T = length (twoColumnsCombinations pb)"
    by blast
  with assms(4) have "st\<lparr>piggyback := Some pb'\<rparr>
      = st\<lparr>piggyback := Some (pb1\<lparr>twoColumnsCombinations := T\<rparr>)\<rparr>"
    by simp
  then have "piggyback (st\<lparr>piggyback := Some pb'\<rparr>)
      = piggyback (st\<lparr>piggyback := Some (pb1\<lparr>twoColumnsCombinations := T\<rparr>)\<rparr>)"
    by (rule arg_cong)
  then have "pb' = pb1\<lparr>twoColumnsCombinations := T\<rparr>" by simp
  with fr len show ?thesis by (simp add: same_frame_def)
qed

lemma row_column:
  assumes "piggyback st = Some pb" and "plan = root pb" and "holds_columns pb (length attrs)"
    and "ExecProcNode_piggyback h plan (produced attrs) st = Some (st\<lparr>piggyback := Some pb'\<rparr>)"
    and "c < length attrs"
  shows "\<exists>pbc pbc'. column_state pbc c = column_state pb c
            \<and> process_attribute h c (attrs ! c) pbc = Some pbc'
            \<and> column_state pb' c = column_state pbc' c"
proof -
  from row_result [OF assms(1-3), of h]
  obtain pb1 T where "ExecProcNode_piggyback h plan (produced attrs) st
        = Some (st\<lparr>piggyback := Some (pb1\<lparr>twoColumnsCombinations := T\<rparr>)\<rparr>)"
    and cols: "\<forall>c<length attrs. \<exists>pbc pbc'.
            same_frame (pb\<lparr>numberOfAttributes := length attrs\<rparr>) pbc
            \<and> column_state pbc c = column_state pb c
            \<and> process_attribute h c (attrs ! c) pbc = Some pbc'
            \<and> column_state pb1 c = column_state pbc' c"
    by blast
  with assms(4) have "st\<lparr>piggyback := Some pb'\<rparr>
      = st\<lparr>piggyback := Some (pb1\<lparr>twoColumnsCombinations := T\<rparr>)\<rparr>"
    by simp
  then have "piggyback (st\<lparr>piggyback := Some pb'\<rparr>)
      = piggyback (st\<lparr>piggyback := Some (pb1\<lparr>twoColumnsCombinations := T\<rparr>)\<rparr>)"
    by (rule arg_cong)
  then have "pb' = pb1\<lparr>twoColumnsCombinations := T\<rparr>" by simp
  then have "column_state pb' c = column_state pb1 c" by simp
  with cols assms(5) show ?thesis by metis
qed

lemma row_column_beyond:
  assumes "piggyback st = Some pb" and "plan = root pb" and "holds_columns pb (length attrs)"
    and "ExecProcNode_piggyback h plan (produced attrs) st = Some (st\<lparr>piggyback := Some pb'\<rparr>)"
    and "length attrs \<le> c"
  shows "column_state pb' c = column_state pb c"
proof -
  from row_result [OF assms(1-3), of h]
  obtain pb1 T where "ExecProcNode_piggyback h plan (produced attrs) st
        = Some (st\<lparr>piggyback := Some (pb1\<lparr>twoColumnsCombinations := T\<rparr>)\<rparr>)"
    and rest: "\<forall>c\<ge>length attrs. column_state pb1 c = column_state pb c"
    by blast
  with assms(4) have "st\<lparr>piggyback := Some pb'\<rparr>
      = st\<lparr>piggyback := Some (pb1\<lparr>twoColumnsCombinations := T\<rparr>)\<rparr>"
    by simp
  then have "piggyback (st\<lparr>piggyback := Some pb'\<rparr>)
      = piggyback (st\<lparr>piggyback := Some (pb1\<lparr>twoColumnsCombinations := T\<rparr>)\<rparr>)"
    by (rule arg_cong)
  then have "pb' = pb1\<lparr>twoColumnsCombinations := T\<rparr>" by simp
  with rest assms(5) show ?thesis by simp
qed

lemma row_pairs:
  assumes "piggyback st = Some pb" and "plan = root pb" and "holds_columns pb (length attrs)"
    and "ExecProcNode_piggyback h plan (produced attrs) st = Some (st\<lparr>piggyback := Some pb'\<rparr>)"
    and "f < t" and "t < length attrs"
  shows "twoColumnsCombinations pb' ! nat (triangular_index (length attrs) f t) =
             finsert (StringKey (slotValues pb' ! f @ slotValues pb' ! t))
               (twoColumnsCombinations pb ! nat (triangular_index (length attrs) f t))"
proof -
  from row_result [OF assms(1-3), of h]
  obtain pb1 T where "ExecProcNode_piggyback h plan (produced attrs) st
        = Some (st\<lparr>piggyback := Some (pb1\<lparr>twoColumnsCombinations := T\<rparr>)\<rparr>)"
    and T: "\<forall>f t. f < t \<and> t < length attrs \<longrightarrow>
           T ! nat (triangular_index (length attrs) f t) =
             finsert (StringKey (slotValues pb1 ! f @ slotValues pb1 ! t))
               (twoColumnsCombinations pb ! nat (triangular_index (length attrs) f t))"
    by blast
  with assms(4) have "st\<lparr>piggyback := Some pb'\<rparr>
      = st\<lparr>piggyback := Some (pb1\<lparr>twoColumnsCombinations := T\<rparr>)\<rparr>"
    by simp
  then have "piggyback (st\<lparr>piggyback := Some pb'\<rparr>)
      = piggyback (st\<lparr>piggyback := Some (pb1\<lparr>twoColumnsCombinations := T\<rparr>)\<rparr>)"
    by (rule arg_cong)
  then have "pb' = pb1\<lparr>twoColumnsCombinations := T\<rparr>" by simp
  with T assms(5,6) show ?thesis by simp
qed

lemma row_lock:
  assumes "piggyback st = Some pb" and "plan = root pb" and "holds_columns pb (length attrs)"
    and "ExecProcNode_piggyback h plan (produced attrs) st = Some (st\<lparr>piggyback := Some pb'\<rparr>)"
  shows "n_distinctIsFinal (columnStatistics pb' ! c) = n_distinctIsFinal (columnStatistics pb ! c)
     \<and> minValueIsFinal (columnStatistics pb' ! c) = minValueIsFinal (columnStatistics pb ! c)
     \<and> maxValueIsFinal (columnStatistics pb' ! c) = maxValueIsFinal (columnStatistics pb ! c)
     \<and> mostFrequentValueIsFinal (columnStatistics pb' ! c)
         = mostFrequentValueIsFinal (columnStatistics pb ! c)
     \<and> (minValueIsFinal (columnStatistics pb ! c)
          \<longrightarrow> minValue (columnStatistics pb' ! c) = minValue (columnStatistics pb ! c))
     \<and> (maxValueIsFinal (columnStatistics pb ! c)
          \<longrightarrow> maxValue (columnStatistics pb' ! c) = maxValue (columnStatistics pb ! c))
     \<and> (n_distinctIsFinal (columnStatistics pb ! c)
          \<longrightarrow> distinctValues pb' ! c = distinctValues pb ! c)"
proof (cases "c < length attrs")
  case True
  from row_column [OF assms True]
  obtain pbc pbc' where a: "column_state pbc c = column_state pb c"
    and b: "process_attribute h c (attrs ! c) pbc = Some pbc'"
    and c: "column_state pb' c = column_state pbc' c"
    by blast
  from a have "columnStatistics pbc ! c = columnStatistics pb ! c"
    "distinctValues pbc ! c = distinctValues pb ! c"
    by (simp_all add: column_state_def)
  moreover from c have "columnStatistics pb' ! c = columnStatistics pbc' ! c"
    "distinctValues pb' ! c = distinctValues pbc' ! c"
    by (simp_all add: column_state_def)
  ultimately show ?thesis
    using process_attribute_lock [OF b, of c] by simp
next
  case False
  then have "column_state pb' c = column_state pb c"
    using row_column_beyond [OF assms] by simp
  then show ?thesis by (simp add: column_state_def)
qed

lemma row_integer:
  assumes "piggyback st = Some pb" and "plan = root pb" and "holds_columns pb (length attrs)"
    and "ExecProcNode_piggyback h plan (produced attrs) st = Some (st\<lparr>piggyback := Some pb'\<rparr>)"
    and "c < length attrs" and "\<not> isNull (attrs ! c)"
    and "is_integer_family (atttypid (attrs ! c))"
  shows "column_state pb' c =
     (accumulate_integer (ucast (datum (attrs ! c))) (columnStatistics pb ! c),
      (if n_distinctIsFinal (columnStatistics pb ! c) then distinctValues pb ! c
       else hashset_add_integer (distinctValues pb ! c) (ucast (datum (attrs ! c)))),
      format_d (sint (ucast (datum (attrs ! c)) :: cint)))"
proof -
  from row_column [OF assms(1-5)]
  obtain pbc pbc' where a: "column_state pbc c = column_state pb c"
    and b: "process_attribute h c (attrs ! c) pbc = Some pbc'"
    and c: "column_state pb' c = column_state pbc' c"
    by blast
  from a have "columnStatistics pbc ! c = columnStatistics pb ! c"
    "distinctValues pbc ! c = distinctValues pb ! c"
    by (simp_all add: column_state_def)
  with c show ?thesis
    using process_attribute_integer [OF b assms(6)] assms(7)
    by (simp add: is_integer_family_def)
qed

lemma row_numeric:
  assumes "piggyback st = Some pb" and "plan = root pb" and "holds_columns pb (length attrs)"
    and "ExecProcNode_piggyback h plan (produced attrs) st = Some (st\<lparr>piggyback := Some pb'\<rparr>)"
    and "c < length attrs" and "\<not> isNull (attrs ! c)"
    and "atttypid (attrs ! c) = NUMERICOID"
  shows "column_state pb' c =
     (columnStatistics pb ! c, distinctValues pb ! c,
      format_d (sint (float_to_int h (datum (attrs ! c)))))"
proof -
  from row_column [OF assms(1-5)]
  obtain pbc pbc' where a: "column_state pbc c = column_state pb c"
    and b: "process_attribute h c (attrs ! c) pbc = Some pbc'"
    and c: "column_state pb' c = column_state pbc' c"
    by blast
  from a have "columnStatistics pbc ! c = columnStatistics pb ! c"
    "distinctValues pbc ! c = distinctValues pb ! c"
    by (simp_all add: column_state_def)
  with c show ?thesis
    using process_attribute_numeric [OF b assms(6,7)] by simp
qed

lemma holds_columns_cong:
  assumes "length (columnStatistics p) = length (columnStatistics pb)"
    and "length (distinctValues p) = length (distinctValues pb)"
    and "length (slotValues p) = length (slotValues pb)"
    and "length (twoColumnsCombinations p) = length (twoColumnsCombinations pb)"
  shows "holds_columns p n = holds_columns pb n"
  using assms by (simp add: holds_columns_def)

lemma process_rows_invariant:
  assumes "piggyback st = Some pb" and "plan = root pb"
    and "\<forall>attrs\<in>set rows. holds_columns pb (length attrs)"
    and "P pb"
    and step: "\<And>attrs s p p'. attrs \<in> set rows \<Longrightarrow> P p \<Longrightarrow> piggyback s = Some p
        \<Longrightarrow> plan = root p \<Longrightarrow> holds_columns p (length attrs)
        \<Longrightarrow> ExecProcNode_piggyback h plan (produced attrs) s = Some (s\<lparr>piggyback := Some p'\<rparr>)
        \<Longrightarrow> P p'"
  shows "\<exists>pb'. process_rows h plan (map produced rows) st = Some (st\<lparr>piggyback := Some pb'\<rparr>)
     \<and> P pb'"
  using assms
proof (induction rows arbitrary: st pb)
  case Nil
  then have "process_rows h plan (map produced []) st = Some (st\<lparr>piggyback := Some pb\<rparr>)"
    by simp
  with Nil.prems(4) show ?case by blast
next
  case (Cons r rs)
  have fits: "holds_columns pb (length r)" using Cons.prems(3) by simp
  from row_total [OF Cons.prems(1,2) fits, of h]
  obtain p1 where run: "ExecProcNode_piggyback h plan (produced r) st
      = Some (st\<lparr>piggyback := Some p1\<rparr>)"
    by blast
  have P1: "P p1"
    using Cons.prems(5) [of r pb st p1] Cons.prems(1,2,4) fits run by simp
  have frame: "root p1 = root pb \<and> columnNames p1 = columnNames pb
     \<and> numberOfAttributes p1 = length r
     \<and> length (columnStatistics p1) = length (columnStatistics pb)
     \<and> length (distinctValues p1) = length (distinctValues pb)
     \<and> length (slotValues p1) = length (slotValues pb)
     \<and> length (twoColumnsCombinations p1) = length (twoColumnsCombinations pb)"
    using row_frame [OF Cons.prems(1,2) fits run] .
  then have same: "holds_columns p1 n = holds_columns pb n" for n
    by (intro holds_columns_cong) simp_all
  have "\<exists>pb'. process_rows h plan (map produced rs) (st\<lparr>piggyback := Some p1\<rparr>)
        = Some (st\<lparr>piggyback := Some p1\<rparr>\<lparr>piggyback := Some pb'\<rparr>) \<and> P pb'"
  proof (rule Cons.IH)
    show "piggyback (st\<lparr>piggyback := Some p1\<rparr>) = Some p1" by simp
    show "plan = root p1" using frame Cons.prems(2) by simp
    show "\<forall>attrs\<in>set rs. holds_columns p1 (length attrs)"
      using Cons.prems(3) same by simp
    show "P p1" by (rule P1)
    show "P p'" if "attrs \<in> set rs" "P p" "piggyback s = Some p" "plan = root p"
      "holds_columns p (length attrs)"
      "ExecProcNode_piggyback h plan (produced attrs) s = Some (s\<lparr>piggyback := Some p'\<rparr>)"
    for attrs s p p'
      using Cons.prems(5) [of attrs p s p'] that by simp
  qed
  then show ?case using run by simp
qed

lemma finality_lock_rows:
  assumes "piggyback st = Some pb" and "plan = root pb"
    and "\<forall>attrs\<in>set rows. holds_columns pb (length attrs)"
  shows "\<exists>pb'. process_rows h plan (map produced rows) st = Some (st\<lparr>piggyback := Some pb'\<rparr>)
     \<and> (\<forall>c. n_distinctIsFinal (columnStatistics pb' ! c)
               = n_distinctIsFinal (columnStatistics pb ! c)
          \<and> minValueIsFinal (columnStatistics pb' ! c) = minValueIsFinal (columnStatistics pb ! c)
          \<and> maxValueIsFinal (columnStatistics pb' ! c) = maxValueIsFinal (columnStatistics pb ! c)
          \<and> mostFrequentValueIsFinal (columnStatistics pb' ! c)
              = mostFrequentValueIsFinal (columnStatistics pb ! c)
          \<and> (minValueIsFinal (columnStatistics pb ! c)
               \<longrightarrow> minValue (columnStatistics pb' ! c) = minValue (columnStatistics pb ! c))
          \<and> (maxValueIsFinal (columnStatistics pb ! c)
               \<longrightarrow> maxValue (columnStatistics pb' ! c) = maxValue (columnStatistics pb ! c))
          \<and> (n_distinctIsFinal (columnStatistics pb ! c)
               \<longrightarrow> distinctValues pb' ! c = distinctValues pb ! c))"
proof -
  let ?P = "\<lambda>p. \<forall>c. n_distinctIsFinal (columnStatistics p ! c)
               = n_distinctIsFinal (columnStatistics pb ! c)
          \<and> minValueIsFinal (columnStatistics p ! c) = minValueIsFinal (columnStatistics pb ! c)
          \<and> maxValueIsFinal (columnStatistics p ! c) = maxValueIsFinal (columnStatistics pb ! c)
          \<and> mostFrequentValueIsFinal (columnStatistics p ! c)
              = mostFrequentValueIsFinal (columnStatistics pb ! c)
          \<and> (minValueIsFinal (columnStatistics pb ! c)
               \<longrightarrow> minValue (columnStatistics p ! c) = minValue (columnStatistics pb ! c))
          \<and> (maxValueIsFinal (columnStatistics pb ! c)
               \<longrightarrow> maxValue (columnStatistics p ! c) = maxValue (columnStatistics pb ! c))
          \<and> (n_distinctIsFinal (columnStatistics pb ! c)
               \<longrightarrow> distinctValues p ! c = distinctValues pb ! c)"
  show ?thesis
  proof (rule process_rows_invariant [where P = ?P, OF assms])
    show "?P pb" by simp
    fix attrs s p p'
    assume P: "?P p" and s: "piggyback s = Some p" and plan: "plan = root p"
      and fits: "holds_columns p (length attrs)"
      and run: "ExecProcNode_piggyback h plan (produced attrs) s = Some (s\<lparr>piggyback := Some p'\<rparr>)"
    show "?P p'"
    proof
      fix c
      from P have "n_distinctIsFinal (columnStatistics p ! c)
               = n_distinctIsFinal (columnStatistics pb ! c)
          \<and> minValueIsFinal (columnStatistics p ! c) = minValueIsFinal (columnStatistics pb ! c)
          \<and> maxValueIsFinal (columnStatistics p ! c) = maxValueIsFinal (columnStatistics pb ! c)
          \<and> mostFrequentValueIsFinal (columnStatistics p ! c)
              = mostFrequentValueIsFinal (columnStatistics pb ! c)
          \<and> (minValueIsFinal (columnStatistics pb ! c)
               \<longrightarrow> minValue (columnStatistics p ! c) = minValue (columnStatistics pb ! c))
          \<and> (maxValueIsFinal (columnStatistics pb ! c)
               \<longrightarrow> maxValue (columnStatistics p ! c) = maxValue (columnStatistics pb ! c))
          \<and> (n_distinctIsFinal (columnStatistics pb ! c)
               \<longrightarrow> distinctValues p ! c = distinctValues pb ! c)"
        by (rule spec)
      with row_lock [OF s plan fits run, of c]
      show "n_distinctIsFinal (columnStatistics p' ! c)
               = n_distinctIsFinal (columnStatistics pb ! c)
          \<and> minValueIsFinal (columnStatistics p' ! c) = minValueIsFinal (columnStatistics pb ! c)
          \<and> maxValueIsFinal (columnStatistics p' ! c) = maxValueIsFinal (columnStatistics pb ! c)
          \<and> mostFrequentValueIsFinal (columnStatistics p' ! c)
              = mostFrequentValueIsFinal (columnStatistics pb ! c)
          \<and> (minValueIsFinal (columnStatistics pb ! c)
               \<longrightarrow> minValue (columnStatistics p' ! c) = minValue (columnStatistics pb ! c))
          \<and> (maxValueIsFinal (columnStatistics pb ! c)
               \<longrightarrow> maxValue (columnStatistics p' ! c) = maxValue (columnStatistics pb ! c))
          \<and> (n_distinctIsFinal (columnStatistics pb ! c)
               \<longrightarrow> distinctValues p' ! c = distinctValues pb ! c)"
        by simp
    qed
  qed
qed

subsection \<open>The predicate of a scan\<close>

lemma search_column_result:
  assumes "n \<le> length stats" and "i \<le> n"
  shows "\<exists>j. search_column t c stats n i = Some j \<and> i \<le> j \<and> j \<le> n
     \<and> (j < n \<longrightarrow> t = srctableid (columnDescriptor (stats ! j))
                    \<and> c = srccolumnid (columnDescriptor (stats ! j)))
     \<and> (\<forall>k. i \<le> k \<and> k < j \<longrightarrow>
            \<not> (t = srctableid (columnDescriptor (stats ! k))
               \<and> c = srccolumnid (columnDescriptor (stats ! k))))"
  using assms
proof (induction "n - i" arbitrary: i)
  case 0
  then have "search_column t c stats n i = Some i"
    by (subst search_column.simps) simp
  with 0 show ?case by auto
next
  case (Suc d)
  then have i: "i < n" "i < length stats" by simp_all
  show ?case
  proof (cases "t = srctableid (columnDescriptor (stats ! i))
                \<and> c = srccolumnid (columnDescriptor (stats ! i))")
    case True
    with i have "search_column t c stats n i = Some i"
      by (subst search_column.simps) (simp add: array_get_def)
    with True i show ?thesis by auto
  next
    case False
    with i have unfold: "search_column t c stats n i = search_column t c stats n (Suc i)"
      by (subst search_column.simps) (auto simp: array_get_def)
    have "d = n - Suc i" using Suc.hyps(2) by simp
    from Suc.hyps(1) [OF this Suc.prems(1)] i
    obtain j where j: "search_column t c stats n (Suc i) = Some j" "Suc i \<le> j" "j \<le> n"
      "j < n \<longrightarrow> t = srctableid (columnDescriptor (stats ! j))
                    \<and> c = srccolumnid (columnDescriptor (stats ! j))"
      "\<forall>k. Suc i \<le> k \<and> k < j \<longrightarrow>
            \<not> (t = srctableid (columnDescriptor (stats ! k))
               \<and> c = srccolumnid (columnDescriptor (stats ! k)))"
      by auto
    have "\<not> (t = srctableid (columnDescriptor (stats ! k))
               \<and> c = srccolumnid (columnDescriptor (stats ! k)))" if "i \<le> k" "k < j" for k
    proof (cases "k = i")
      case True
      with False show ?thesis by simp
    next
      case False
      with that j(5) show ?thesis by simp
    qed
    with j unfold show ?thesis by auto
  qed
qed

lemma search_column_first:
  assumes "n \<le> length stats" and "p < n"
    and "t = srctableid (columnDescriptor (stats ! p))"
    and "c = srccolumnid (columnDescriptor (stats ! p))"
    and "\<forall>k<p. \<not> (t = srctableid (columnDescriptor (stats ! k))
               \<and> c = srccolumnid (columnDescriptor (stats ! k)))"
  shows "search_column t c stats n 0 = Some p"
proof -
  from search_column_result [OF assms(1), of 0 t c]
  obtain j where j: "search_column t c stats n 0 = Some j" "j \<le> n"
      "j < n \<longrightarrow> t = srctableid (columnDescriptor (stats ! j))
                    \<and> c = srccolumnid (columnDescriptor (stats ! j))"
      "\<forall>k. 0 \<le> k \<and> k < j \<longrightarrow>
            \<not> (t = srctableid (columnDescriptor (stats ! k))
               \<and> c = srccolumnid (columnDescriptor (stats ! k)))"
    by auto
  have "\<not> p < j" using j(4) assms(3,4) by auto
  moreover have "\<not> j < p" using j(3) assms(2,5) by auto
  ultimately have "j = p" by simp
  with j(1) show ?thesis by simp
qed

lemma LookForFilterWithEquality_pins:
  assumes "piggyback st = Some pb"
    and "numberOfAttributes pb \<le> length (columnStatistics pb)"
    and "targetlist \<noteq> []"
    and "is_equality_opno opno"
    and "p < numberOfAttributes pb"
    and "tableOid = srctableid (columnDescriptor (columnStatistics pb ! p))"
    and "scast varattno = srccolumnid (columnDescriptor (columnStatistics pb ! p))"
    and "\<forall>k<p. \<not> (tableOid = srctableid (columnDescriptor (columnStatistics pb ! k))
               \<and> scast varattno = srccolumnid (columnDescriptor (columnStatistics pb ! k)))"
  shows "LookForFilterWithEquality uninit targetlist tableOid
           (OpExpr opno [Var varattno, Const constvalue] # rest) st =
     Some (st\<lparr>piggyback := Some (pb\<lparr>columnStatistics := (columnStatistics pb)[p :=
       pin_to_literal \<lparr>srctableid = uninit, srccolumnid = scast varattno, typid = 20\<rparr>
         (PtrConstvalue constvalue) (columnStatistics pb ! p)]\<rparr>)\<rparr>)"
proof -
  have "search_column tableOid (scast varattno) (columnStatistics pb) (numberOfAttributes pb) 0
      = Some p"
    using assms(2,5,6,7,8) by (intro search_column_first) simp_all
  moreover have "p < length (columnStatistics pb)" using assms(2,5) by simp
  ultimately show ?thesis
    using assms(1,3,4,5)
    by (simp add: LookForFilterWithEquality_def array_get_def array_set_def Let_def)
qed

lemma LookForFilterWithEquality_other_operator:
  assumes "piggyback st = Some pb"
    and "numberOfAttributes pb \<le> length (columnStatistics pb)"
    and "\<not> is_equality_opno opno"
  shows "LookForFilterWithEquality uninit targetlist tableOid
           (OpExpr opno (Var varattno # args) # rest) st = Some st"
proof -
  from search_column_result [OF assms(2), of 0 tableOid "scast varattno"]
  obtain j where "search_column tableOid (scast varattno) (columnStatistics pb)
      (numberOfAttributes pb) 0 = Some j"
    by auto
  then show ?thesis
    using assms(1,3) by (simp add: LookForFilterWithEquality_def)
qed

lemma LookForFilterWithEquality_cases:
  assumes "LookForFilterWithEquality uninit targetlist tableOid qual st = Some st'"
  shows "st' = st \<or> st' = st\<lparr>stdout := stdout st @ not_in_result_notice\<rparr>
     \<or> (\<exists>pb i columnData literal. piggyback st = Some pb \<and> i < length (columnStatistics pb)
          \<and> st' = st\<lparr>piggyback := Some (pb\<lparr>columnStatistics := (columnStatistics pb)[i :=
                pin_to_literal columnData literal (columnStatistics pb ! i)]\<rparr>)\<rparr>)"
  using assms
  by (auto simp: LookForFilterWithEquality_def array_get_def array_set_def Let_def
      split: list.splits Expr.splits Node.splits option.splits if_splits bind_splits)

text \<open>
  Claim C1, as the code has it. Let the qualifier of a scan be a single comparison with
  a column reference as its first operand and a literal as its second, by one of the nine
  operators the code takes for an equality; let the target list of the scan be non-empty,
  and let \<open>p\<close> be the first output position whose descriptor names the table of the scan
  and the column. Then \<^verbatim>\<open>LookForFilterWithEquality\<close> returns and prints nothing, and
  afterwards, with no row processed, the minimum, the maximum and the most frequent value
  at \<open>p\<close> all point to the literal (read as an \<^verbatim>\<open>int\<close>: its low 32 bits), the statistic is
  numeric and its four finality flags are set. The statistic at every other position, also
  at a later one with the same descriptor, is what it was, and so is everything else the
  collector holds.
\<close>

theorem equality_pins_first_matching_column:
  assumes "piggyback st = Some pb"
    and "numberOfAttributes pb \<le> length (columnStatistics pb)"
    and "targetlist \<noteq> []"
    and "is_equality_opno opno"
    and "p < numberOfAttributes pb"
    and "tableOid = srctableid (columnDescriptor (columnStatistics pb ! p))"
    and "scast varattno = srccolumnid (columnDescriptor (columnStatistics pb ! p))"
    and "\<forall>k<p. \<not> (tableOid = srctableid (columnDescriptor (columnStatistics pb ! k))
               \<and> scast varattno = srccolumnid (columnDescriptor (columnStatistics pb ! k)))"
  shows "\<exists>pb'. LookForFilterWithEquality uninit targetlist tableOid
                 [OpExpr opno [Var varattno, Const constvalue]] st
               = Some (st\<lparr>piggyback := Some pb'\<rparr>)
     \<and> process_rows h plan [] (st\<lparr>piggyback := Some pb'\<rparr>) = Some (st\<lparr>piggyback := Some pb'\<rparr>)
     \<and> minValue (columnStatistics pb' ! p) = PtrConstvalue constvalue
     \<and> maxValue (columnStatistics pb' ! p) = PtrConstvalue constvalue
     \<and> mostFrequentValue (columnStatistics pb' ! p) = PtrConstvalue constvalue
     \<and> deref_int (minValue (columnStatistics pb' ! p)) = ucast constvalue
     \<and> isNumeric (columnStatistics pb' ! p)
     \<and> minValueIsFinal (columnStatistics pb' ! p)
     \<and> maxValueIsFinal (columnStatistics pb' ! p)
     \<and> mostFrequentValueIsFinal (columnStatistics pb' ! p)
     \<and> n_distinctIsFinal (columnStatistics pb' ! p)
     \<and> (\<forall>k. k \<noteq> p \<longrightarrow> columnStatistics pb' ! k = columnStatistics pb ! k)
     \<and> length (columnStatistics pb') = length (columnStatistics pb)
     \<and> pb'\<lparr>columnStatistics := columnStatistics pb\<rparr> = pb"
proof -
  let ?pinned = "pin_to_literal \<lparr>srctableid = uninit, srccolumnid = scast varattno, typid = 20\<rparr>
         (PtrConstvalue constvalue) (columnStatistics pb ! p)"
  let ?pb' = "pb\<lparr>columnStatistics := (columnStatistics pb)[p := ?pinned]\<rparr>"
  have run: "LookForFilterWithEquality uninit targetlist tableOid
                 [OpExpr opno [Var varattno, Const constvalue]] st
               = Some (st\<lparr>piggyback := Some ?pb'\<rparr>)"
    using assms by (rule LookForFilterWithEquality_pins)
  have "p < length (columnStatistics pb)" using assms(2,5) by simp
  then have at: "columnStatistics ?pb' ! p = ?pinned" by simp
  have others: "\<forall>k. k \<noteq> p \<longrightarrow> columnStatistics ?pb' ! k = columnStatistics pb ! k"
    by simp
  have frame: "length (columnStatistics ?pb') = length (columnStatistics pb)"
    "?pb'\<lparr>columnStatistics := columnStatistics pb\<rparr> = pb"
    by simp_all
  have pinned: "minValue ?pinned = PtrConstvalue constvalue"
    "maxValue ?pinned = PtrConstvalue constvalue"
    "mostFrequentValue ?pinned = PtrConstvalue constvalue"
    "deref_int (minValue ?pinned) = ucast constvalue"
    "isNumeric ?pinned" "minValueIsFinal ?pinned" "maxValueIsFinal ?pinned"
    "mostFrequentValueIsFinal ?pinned" "n_distinctIsFinal ?pinned"
    by (simp_all add: pin_to_literal_def)
  show ?thesis
    unfolding run
    by (rule exI [where x = ?pb']) (simp only: at others frame pinned, simp)
qed

theorem equality_pins_first_matching_column_witness:
  "\<exists>pb'. LookForFilterWithEquality 0 [()] 7 [OpExpr 96 [Var 2, Const 42]]
             \<lparr>piggyback = Some example_fresh, stdout = []\<rparr>
               = Some (\<lparr>piggyback = Some example_fresh, stdout = []\<rparr>\<lparr>piggyback := Some pb'\<rparr>)
     \<and> process_rows example_host 1 []
          (\<lparr>piggyback = Some example_fresh, stdout = []\<rparr>\<lparr>piggyback := Some pb'\<rparr>)
         = Some (\<lparr>piggyback = Some example_fresh, stdout = []\<rparr>\<lparr>piggyback := Some pb'\<rparr>)
     \<and> minValue (columnStatistics pb' ! 1) = PtrConstvalue 42
     \<and> maxValue (columnStatistics pb' ! 1) = PtrConstvalue 42
     \<and> mostFrequentValue (columnStatistics pb' ! 1) = PtrConstvalue 42
     \<and> deref_int (minValue (columnStatistics pb' ! 1)) = ucast (42 :: Datum)
     \<and> isNumeric (columnStatistics pb' ! 1)
     \<and> minValueIsFinal (columnStatistics pb' ! 1)
     \<and> maxValueIsFinal (columnStatistics pb' ! 1)
     \<and> mostFrequentValueIsFinal (columnStatistics pb' ! 1)
     \<and> n_distinctIsFinal (columnStatistics pb' ! 1)
     \<and> (\<forall>k. k \<noteq> 1 \<longrightarrow> columnStatistics pb' ! k = columnStatistics example_fresh ! k)
     \<and> length (columnStatistics pb') = length (columnStatistics example_fresh)
     \<and> pb'\<lparr>columnStatistics := columnStatistics example_fresh\<rparr> = example_fresh"
proof -
  have h1: "piggyback \<lparr>piggyback = Some example_fresh, stdout = []\<rparr> = Some example_fresh"
    by simp
  have h2: "numberOfAttributes example_fresh \<le> length (columnStatistics example_fresh)"
    by (simp add: example_fresh_def example_piggyback_def)
  have h3: "[()] \<noteq> []" by simp
  have h4: "is_equality_opno 96" by (simp add: is_equality_opno_def)
  have h5: "1 < numberOfAttributes example_fresh"
    by (simp add: example_fresh_def example_piggyback_def)
  have h6: "(7 :: Oid) = srctableid (columnDescriptor (columnStatistics example_fresh ! 1))"
    by (simp add: example_fresh_def example_piggyback_def example_statistic_def)
  have h7: "scast (2 :: AttrNumber)
      = srccolumnid (columnDescriptor (columnStatistics example_fresh ! 1))"
    by (simp add: example_fresh_def example_piggyback_def example_statistic_def)
  have h8: "\<forall>k<1. \<not> ((7 :: Oid)
        = srctableid (columnDescriptor (columnStatistics example_fresh ! k))
      \<and> scast (2 :: AttrNumber)
        = srccolumnid (columnDescriptor (columnStatistics example_fresh ! k)))"
    by (simp add: example_fresh_def example_piggyback_def example_statistic_def)
  show ?thesis
    by (rule equality_pins_first_matching_column [OF h1 h2 h3 h4 h5 h6 h7 h8])
qed

text \<open>
  Each of the three conditions is needed. The position has to be the first that matches,
  as the search loop stops there: in \<open>example_twice\<close> the descriptor at position 1 names
  the filtered column as well, yet the call pins position 0 only and leaves the statistic
  at position 1 as it was, with the sentinel as its minimum and no flag set. The operator
  has to be one of the nine, which are the equalities between two-, four- and eight-byte
  integers: operator 98, the equality of two texts in the catalog, is not among them, and
  a comparison by it pins nothing. And the column has to be the first operand: with the
  literal first the function reads the literal through a cast to a column reference, the
  behaviour is undefined and no column is known to be pinned.
\<close>

theorem equality_on_repeated_column_counterexample:
  "srctableid (columnDescriptor (columnStatistics example_twice ! 1)) = 7
   \<and> srccolumnid (columnDescriptor (columnStatistics example_twice ! 1)) = scast (1 :: AttrNumber)
   \<and> LookForFilterWithEquality 0 [()] 7 [OpExpr 96 [Var 1, Const 42]]
        \<lparr>piggyback = Some example_twice, stdout = []\<rparr>
      = Some \<lparr>piggyback = Some (example_piggyback
                 [pin_to_literal \<lparr>srctableid = 0, srccolumnid = 1, typid = 20\<rparr>
                    (PtrConstvalue 42) (example_statistic 1),
                  example_statistic 1]),
               stdout = []\<rparr>
   \<and> minValue (example_statistic 1) = PtrInt INT_MAX
   \<and> \<not> minValueIsFinal (example_statistic 1)
   \<and> LookForFilterWithEquality 0 [()] 7 [OpExpr 98 [Var 1, Const 42]]
        \<lparr>piggyback = Some example_fresh, stdout = []\<rparr>
      = Some \<lparr>piggyback = Some example_fresh, stdout = []\<rparr>
   \<and> \<not> minValueIsFinal (columnStatistics example_fresh ! 0)
   \<and> LookForFilterWithEquality 0 [()] 7 [OpExpr 96 [Const 42, Var 1]]
        \<lparr>piggyback = Some example_fresh, stdout = []\<rparr>
      = None"
proof -
  have "LookForFilterWithEquality 0 [()] 7 (OpExpr 96 [Var 1, Const 42] # [])
        \<lparr>piggyback = Some example_twice, stdout = []\<rparr>
      = Some (\<lparr>piggyback = Some example_twice, stdout = []\<rparr>\<lparr>piggyback :=
          Some (example_twice\<lparr>columnStatistics := (columnStatistics example_twice)[0 :=
            pin_to_literal \<lparr>srctableid = 0, srccolumnid = scast (1 :: AttrNumber), typid = 20\<rparr>
              (PtrConstvalue 42) (columnStatistics example_twice ! 0)]\<rparr>)\<rparr>)"
    by (rule LookForFilterWithEquality_pins)
      (simp_all add: example_twice_def example_piggyback_def example_statistic_def
        is_equality_opno_def)
  then have twice: "LookForFilterWithEquality 0 [()] 7 [OpExpr 96 [Var 1, Const 42]]
        \<lparr>piggyback = Some example_twice, stdout = []\<rparr>
      = Some \<lparr>piggyback = Some (example_piggyback
                 [pin_to_literal \<lparr>srctableid = 0, srccolumnid = 1, typid = 20\<rparr>
                    (PtrConstvalue 42) (example_statistic 1),
                  example_statistic 1]),
               stdout = []\<rparr>"
    by (simp add: example_twice_def example_piggyback_def)
  have texts: "LookForFilterWithEquality 0 [()] 7 (OpExpr 98 (Var 1 # [Const 42]) # [])
        \<lparr>piggyback = Some example_fresh, stdout = []\<rparr>
      = Some \<lparr>piggyback = Some example_fresh, stdout = []\<rparr>"
    by (rule LookForFilterWithEquality_other_operator [where pb = example_fresh])
      (simp_all add: example_fresh_def example_piggyback_def is_equality_opno_def)
  have literal_first: "LookForFilterWithEquality 0 [()] 7 [OpExpr 96 [Const 42, Var 1]]
        \<lparr>piggyback = Some example_fresh, stdout = []\<rparr> = None"
    by (simp add: LookForFilterWithEquality_def)
  have "srctableid (columnDescriptor (columnStatistics example_twice ! 1)) = 7"
    "srccolumnid (columnDescriptor (columnStatistics example_twice ! 1)) = scast (1 :: AttrNumber)"
    "minValue (example_statistic 1) = PtrInt INT_MAX"
    "\<not> minValueIsFinal (example_statistic 1)"
    "\<not> minValueIsFinal (columnStatistics example_fresh ! 0)"
    by (simp_all add: example_twice_def example_fresh_def example_piggyback_def
        example_statistic_def)
  with twice texts literal_first show ?thesis by simp
qed

text \<open>
  Claim C7, as the code has it. \<^verbatim>\<open>LookForFilterWithEquality\<close> returns the state it was
  given, so it changes no statistic and prints nothing, when the qualifier is empty, and
  when the first condition of the qualifier applies an operator that is not one of the
  nine to a column reference, whatever follows in the qualifier.
\<close>

theorem other_predicates_are_ignored:
  assumes "piggyback st = Some pb"
    and "numberOfAttributes pb \<le> length (columnStatistics pb)"
    and "\<not> is_equality_opno opno"
  shows "LookForFilterWithEquality uninit targetlist tableOid [] st0 = Some st0
     \<and> LookForFilterWithEquality uninit targetlist tableOid
          (OpExpr opno (Var varattno # args) # rest) st = Some st"
  using LookForFilterWithEquality_other_operator [OF assms]
  by (simp add: LookForFilterWithEquality_def)

theorem other_predicates_are_ignored_witness:
  "LookForFilterWithEquality 0 [()] 7 [] \<lparr>piggyback = None, stdout = []\<rparr>
     = Some \<lparr>piggyback = None, stdout = []\<rparr>
   \<and> LookForFilterWithEquality 0 [()] 7
        (OpExpr 521 (Var 2 # [Const 5]) # [OpExpr 96 [Var 1, Const 42]])
        \<lparr>piggyback = Some example_fresh, stdout = []\<rparr>
     = Some \<lparr>piggyback = Some example_fresh, stdout = []\<rparr>"
  using other_predicates_are_ignored
    [of "\<lparr>piggyback = Some example_fresh, stdout = []\<rparr>" example_fresh 521 0 "[()]" 7
      "\<lparr>piggyback = None, stdout = []\<rparr>" 2 "[Const 5]" "[OpExpr 96 [Var 1, Const 42]]"]
  by (simp add: example_fresh_def example_piggyback_def is_equality_opno_def)

text \<open>
  The function reads the first condition of the qualifier only. For the conjunction
  \<^verbatim>\<open>a = 42 AND b > 5\<close> it therefore pins the column \<open>a\<close>: a conjunction is not ignored.
\<close>

theorem conjunction_counterexample:
  "LookForFilterWithEquality 0 [()] 7 [OpExpr 96 [Var 1, Const 42], OpExpr 521 [Var 2, Const 5]]
     \<lparr>piggyback = Some example_fresh, stdout = []\<rparr>
   = Some \<lparr>piggyback = Some example_pinned, stdout = []\<rparr>
   \<and> columnStatistics example_pinned ! 0 \<noteq> columnStatistics example_fresh ! 0"
proof -
  have "LookForFilterWithEquality 0 [()] 7
        (OpExpr 96 [Var 1, Const 42] # [OpExpr 521 [Var 2, Const 5]])
        \<lparr>piggyback = Some example_fresh, stdout = []\<rparr>
      = Some (\<lparr>piggyback = Some example_fresh, stdout = []\<rparr>\<lparr>piggyback :=
          Some (example_fresh\<lparr>columnStatistics := (columnStatistics example_fresh)[0 :=
            pin_to_literal \<lparr>srctableid = 0, srccolumnid = scast (1 :: AttrNumber), typid = 20\<rparr>
              (PtrConstvalue 42) (columnStatistics example_fresh ! 0)]\<rparr>)\<rparr>)"
    by (rule LookForFilterWithEquality_pins)
      (simp_all add: example_fresh_def example_piggyback_def example_statistic_def
        is_equality_opno_def)
  then show ?thesis
    by (simp add: example_fresh_def example_pinned_def example_piggyback_def
        example_statistic_def pin_to_literal_def)
qed

subsection \<open>The keys of the pairs\<close>

lemma process_attribute_text:
  assumes "process_attribute h i a pb = Some pb'"
    and "\<not> isNull a"
    and "atttypid a = BPCHAROID \<or> atttypid a = VARCHAROID"
  shows "slotValues pb' ! i = TextDatumGetCString h (datum a)"
  using assms
  by (auto simp: process_attribute_def array_get_def array_set_def Let_def
      NUMERICOID_def INT8OID_def INT2OID_def INT2VECTOROID_def INT4OID_def
      BPCHAROID_def VARCHAROID_def
      split: if_splits bind_splits)

lemma row_text:
  assumes "piggyback st = Some pb" and "plan = root pb" and "holds_columns pb (length attrs)"
    and "ExecProcNode_piggyback h plan (produced attrs) st = Some (st\<lparr>piggyback := Some pb'\<rparr>)"
    and "c < length attrs" and "\<not> isNull (attrs ! c)"
    and "atttypid (attrs ! c) = BPCHAROID \<or> atttypid (attrs ! c) = VARCHAROID"
  shows "slotValues pb' ! c = TextDatumGetCString h (datum (attrs ! c))"
proof -
  from row_column [OF assms(1-5)]
  obtain pbc pbc' where b: "process_attribute h c (attrs ! c) pbc = Some pbc'"
    and c: "column_state pb' c = column_state pbc' c"
    by blast
  from c have "slotValues pb' ! c = slotValues pbc' ! c"
    by (simp add: column_state_def)
  then show ?thesis
    using process_attribute_text [OF b assms(6,7)] by simp
qed

lemma accumulate_integer_minValue:
  "minValue (accumulate_integer v cs) =
     (if \<not> minValueIsFinal cs
         \<and> (sint v < sint (deref_int (minValue cs)) \<or> deref_int (minValue cs) = INT_MAX)
      then PtrInt v else minValue cs)"
  by (simp add: accumulate_integer_def Let_def)

lemma accumulate_integer_maxValue:
  "maxValue (accumulate_integer v cs) =
     (if \<not> maxValueIsFinal cs
         \<and> (sint (deref_int (maxValue cs)) < sint v \<or> deref_int (maxValue cs) = INT_MIN)
      then PtrInt v else maxValue cs)"
  by (auto simp: accumulate_integer_def Let_def)

lemma accumulate_integer_isNumeric: "isNumeric (accumulate_integer v cs)"
  by (simp add: accumulate_integer_def Let_def)



text \<open>
  Claim C4. For every produced row and every pair of columns \<open>f < t\<close>, the block of
  \<^verbatim>\<open>ExecProcNode\<close> adds to the set of the pair exactly one key, the slot value of \<open>f\<close>
  followed at once by the slot value of \<open>t\<close>, with nothing between them; the slot value
  of a character column is its text. So the rows \<open>(a, b)\<close> and \<open>(ab, )\<close> of two character
  columns both add the key \<open>ab\<close>, as the instance below shows.
\<close>

theorem pair_key_is_concatenation:
  assumes "piggyback st = Some pb" and "plan = root pb" and "holds_columns pb (length attrs)"
  shows "\<exists>pb'. ExecProcNode_piggyback h plan (produced attrs) st
             = Some (st\<lparr>piggyback := Some pb'\<rparr>)
     \<and> (\<forall>f t. f < t \<and> t < length attrs \<longrightarrow>
           twoColumnsCombinations pb' ! nat (triangular_index (length attrs) f t) =
             hashset_add_string
               (twoColumnsCombinations pb ! nat (triangular_index (length attrs) f t))
               (slotValues pb' ! f @ slotValues pb' ! t))
     \<and> (\<forall>c<length attrs. \<not> isNull (attrs ! c)
           \<and> (atttypid (attrs ! c) = BPCHAROID \<or> atttypid (attrs ! c) = VARCHAROID)
           \<longrightarrow> slotValues pb' ! c = TextDatumGetCString h (datum (attrs ! c)))"
proof -
  from row_total [OF assms, of h]
  obtain pb' where run: "ExecProcNode_piggyback h plan (produced attrs) st
             = Some (st\<lparr>piggyback := Some pb'\<rparr>)"
    by blast
  have "twoColumnsCombinations pb' ! nat (triangular_index (length attrs) f t) =
             hashset_add_string
               (twoColumnsCombinations pb ! nat (triangular_index (length attrs) f t))
               (slotValues pb' ! f @ slotValues pb' ! t)"
    if "f < t" "t < length attrs" for f t
    using row_pairs [OF assms run that] by (simp add: hashset_add_string_def)
  moreover have "slotValues pb' ! c = TextDatumGetCString h (datum (attrs ! c))"
    if "c < length attrs" "\<not> isNull (attrs ! c)"
      "atttypid (attrs ! c) = BPCHAROID \<or> atttypid (attrs ! c) = VARCHAROID" for c
    using row_text [OF assms run that] .
  ultimately show ?thesis using run by blast
qed

theorem pair_key_is_concatenation_witness:
  "(\<exists>pb'. ExecProcNode_piggyback example_host 1
            (produced [value_of_type VARCHAROID 1, value_of_type VARCHAROID 2])
            \<lparr>piggyback = Some example_fresh, stdout = []\<rparr>
          = Some (\<lparr>piggyback = Some example_fresh, stdout = []\<rparr>\<lparr>piggyback := Some pb'\<rparr>)
      \<and> slotValues pb' ! 0 = ''a'' \<and> slotValues pb' ! 1 = ''b''
      \<and> twoColumnsCombinations pb' ! 0 = {|StringKey ''ab''|})
   \<and> (\<exists>pb'. ExecProcNode_piggyback example_host 1
            (produced [value_of_type VARCHAROID 3, value_of_type VARCHAROID 4])
            \<lparr>piggyback = Some example_fresh, stdout = []\<rparr>
          = Some (\<lparr>piggyback = Some example_fresh, stdout = []\<rparr>\<lparr>piggyback := Some pb'\<rparr>)
      \<and> slotValues pb' ! 0 = ''ab'' \<and> slotValues pb' ! 1 = []
      \<and> twoColumnsCombinations pb' ! 0 = {|StringKey ''ab''|})"
proof -
  have h1: "piggyback \<lparr>piggyback = Some example_fresh, stdout = []\<rparr> = Some example_fresh"
    by simp
  have h2: "1 = root example_fresh"
    by (simp add: example_fresh_def example_piggyback_def)
  have h3: "holds_columns example_fresh (length [value_of_type VARCHAROID d, value_of_type VARCHAROID e])"
    for d e
    by (simp add: holds_columns_def example_fresh_def example_piggyback_def)
  have k: "triangular_index (Suc (Suc 0)) 0 (Suc 0) = 0"
    by (simp add: triangular_index_def)
  have old: "twoColumnsCombinations example_fresh ! 0 = {||}"
    by (simp add: example_fresh_def example_piggyback_def)
  have "\<exists>pb'. ExecProcNode_piggyback example_host 1
            (produced [value_of_type VARCHAROID d, value_of_type VARCHAROID e])
            \<lparr>piggyback = Some example_fresh, stdout = []\<rparr>
          = Some (\<lparr>piggyback = Some example_fresh, stdout = []\<rparr>\<lparr>piggyback := Some pb'\<rparr>)
      \<and> slotValues pb' ! 0 = TextDatumGetCString example_host d
      \<and> slotValues pb' ! 1 = TextDatumGetCString example_host e
      \<and> twoColumnsCombinations pb' ! 0
          = {|StringKey (TextDatumGetCString example_host d @ TextDatumGetCString example_host e)|}"
    for d e
  proof -
    let ?attrs = "[value_of_type VARCHAROID d, value_of_type VARCHAROID e]"
    from pair_key_is_concatenation [OF h1 h2 h3, of example_host d e]
    obtain pb' where run: "ExecProcNode_piggyback example_host 1 (produced ?attrs)
            \<lparr>piggyback = Some example_fresh, stdout = []\<rparr>
          = Some (\<lparr>piggyback = Some example_fresh, stdout = []\<rparr>\<lparr>piggyback := Some pb'\<rparr>)"
      and pairs: "\<forall>f t. f < t \<and> t < length ?attrs \<longrightarrow>
           twoColumnsCombinations pb' ! nat (triangular_index (length ?attrs) f t) =
             hashset_add_string
               (twoColumnsCombinations example_fresh ! nat (triangular_index (length ?attrs) f t))
               (slotValues pb' ! f @ slotValues pb' ! t)"
      and slots: "\<forall>c<length ?attrs. \<not> isNull (?attrs ! c)
           \<and> (atttypid (?attrs ! c) = BPCHAROID \<or> atttypid (?attrs ! c) = VARCHAROID)
           \<longrightarrow> slotValues pb' ! c = TextDatumGetCString example_host (datum (?attrs ! c))"
      by blast
    from slots have s0: "slotValues pb' ! 0 = TextDatumGetCString example_host d"
      by (simp add: value_of_type_def)
    from slots have s1: "slotValues pb' ! 1 = TextDatumGetCString example_host e"
      by (simp add: value_of_type_def)
    from pairs have "(0 :: nat) < 1 \<and> 1 < length ?attrs \<longrightarrow>
           twoColumnsCombinations pb' ! nat (triangular_index (length ?attrs) 0 1) =
             hashset_add_string
               (twoColumnsCombinations example_fresh ! nat (triangular_index (length ?attrs) 0 1))
               (slotValues pb' ! 0 @ slotValues pb' ! 1)"
      by blast
    then have "twoColumnsCombinations pb' ! 0 =
        {|StringKey (TextDatumGetCString example_host d @ TextDatumGetCString example_host e)|}"
      using k old s0 s1 by (simp add: hashset_add_string_def)
    with run s0 s1 show ?thesis by blast
  qed
  from this [of 1 2] this [of 3 4] show ?thesis
    by (simp add: example_host_def)
qed

subsection \<open>The finality lock\<close>

lemma LookForFilterWithEquality_flags:
  assumes "LookForFilterWithEquality uninit targetlist tableOid qual st0 = Some st1"
    and "piggyback st0 = Some pb0"
  shows "\<exists>pb1. piggyback st1 = Some pb1
     \<and> (\<forall>c. columnStatistics pb1 ! c = columnStatistics pb0 ! c
            \<or> (n_distinctIsFinal (columnStatistics pb1 ! c)
                \<and> minValueIsFinal (columnStatistics pb1 ! c)
                \<and> maxValueIsFinal (columnStatistics pb1 ! c)
                \<and> mostFrequentValueIsFinal (columnStatistics pb1 ! c)))"
proof -
  from LookForFilterWithEquality_cases [OF assms(1)]
  consider "st1 = st0" | "st1 = st0\<lparr>stdout := stdout st0 @ not_in_result_notice\<rparr>"
    | pb i columnData literal where "piggyback st0 = Some pb" "i < length (columnStatistics pb)"
        "st1 = st0\<lparr>piggyback := Some (pb\<lparr>columnStatistics := (columnStatistics pb)[i :=
                pin_to_literal columnData literal (columnStatistics pb ! i)]\<rparr>)\<rparr>"
    by blast
  then show ?thesis
  proof cases
    case 1
    with assms(2) show ?thesis by simp
  next
    case 2
    with assms(2) show ?thesis by simp
  next
    case 3
    let ?stats = "(columnStatistics pb0)[i :=
                pin_to_literal columnData literal (columnStatistics pb0 ! i)]"
    from 3 assms(2) have pb: "pb = pb0" by simp
    have "?stats ! c = columnStatistics pb0 ! c
            \<or> (n_distinctIsFinal (?stats ! c) \<and> minValueIsFinal (?stats ! c)
                \<and> maxValueIsFinal (?stats ! c) \<and> mostFrequentValueIsFinal (?stats ! c))" for c
    proof (cases "c = i")
      case True
      with 3(2) pb show ?thesis by (simp add: pin_to_literal_def)
    next
      case False
      then show ?thesis by simp
    qed
    with 3(3) pb show ?thesis by simp
  qed
qed

text \<open>
  Claim C2. Whatever rows the root node produces, the block of \<^verbatim>\<open>ExecProcNode\<close> returns
  and leaves, for every column, the four finality flags as they were; where the flag of
  the minimum is set the minimum is not modified, where the flag of the maximum is set
  the maximum is not modified, and where the flag of the distinct count is set the set of
  distinct values is not modified. The flags are written by
  \<^verbatim>\<open>LookForFilterWithEquality\<close> alone, which leaves a statistic as it was or sets all four
  of its flags together.
\<close>

theorem finality_lock:
  assumes "piggyback st = Some pb" and "plan = root pb"
    and "\<forall>attrs\<in>set rows. holds_columns pb (length attrs)"
  shows "(\<exists>pb'. process_rows h plan (map produced rows) st = Some (st\<lparr>piggyback := Some pb'\<rparr>)
     \<and> (\<forall>c. n_distinctIsFinal (columnStatistics pb' ! c)
               = n_distinctIsFinal (columnStatistics pb ! c)
          \<and> minValueIsFinal (columnStatistics pb' ! c) = minValueIsFinal (columnStatistics pb ! c)
          \<and> maxValueIsFinal (columnStatistics pb' ! c) = maxValueIsFinal (columnStatistics pb ! c)
          \<and> mostFrequentValueIsFinal (columnStatistics pb' ! c)
              = mostFrequentValueIsFinal (columnStatistics pb ! c)
          \<and> (minValueIsFinal (columnStatistics pb ! c)
               \<longrightarrow> minValue (columnStatistics pb' ! c) = minValue (columnStatistics pb ! c))
          \<and> (maxValueIsFinal (columnStatistics pb ! c)
               \<longrightarrow> maxValue (columnStatistics pb' ! c) = maxValue (columnStatistics pb ! c))
          \<and> (n_distinctIsFinal (columnStatistics pb ! c)
               \<longrightarrow> distinctValues pb' ! c = distinctValues pb ! c)))
   \<and> (LookForFilterWithEquality uninit targetlist tableOid qual st0 = Some st1
        \<and> piggyback st0 = Some pb0
      \<longrightarrow> (\<exists>pb1. piggyback st1 = Some pb1
            \<and> (\<forall>c. columnStatistics pb1 ! c = columnStatistics pb0 ! c
                 \<or> (n_distinctIsFinal (columnStatistics pb1 ! c)
                     \<and> minValueIsFinal (columnStatistics pb1 ! c)
                     \<and> maxValueIsFinal (columnStatistics pb1 ! c)
                     \<and> mostFrequentValueIsFinal (columnStatistics pb1 ! c)))))"
  using finality_lock_rows [OF assms, of h]
    LookForFilterWithEquality_flags [of uninit targetlist tableOid qual st0 st1 pb0]
  by blast

theorem finality_lock_witness:
  "(\<exists>pb'. process_rows example_host 1
            (map produced [[value_of_type INT4OID 5, value_of_type INT4OID 7],
                           [value_of_type INT4OID 3, value_of_type INT4OID 9]])
            \<lparr>piggyback = Some example_pinned, stdout = []\<rparr>
         = Some (\<lparr>piggyback = Some example_pinned, stdout = []\<rparr>\<lparr>piggyback := Some pb'\<rparr>)
     \<and> (\<forall>c. n_distinctIsFinal (columnStatistics pb' ! c)
               = n_distinctIsFinal (columnStatistics example_pinned ! c)
          \<and> minValueIsFinal (columnStatistics pb' ! c)
              = minValueIsFinal (columnStatistics example_pinned ! c)
          \<and> maxValueIsFinal (columnStatistics pb' ! c)
              = maxValueIsFinal (columnStatistics example_pinned ! c)
          \<and> mostFrequentValueIsFinal (columnStatistics pb' ! c)
              = mostFrequentValueIsFinal (columnStatistics example_pinned ! c)
          \<and> (minValueIsFinal (columnStatistics example_pinned ! c)
               \<longrightarrow> minValue (columnStatistics pb' ! c)
                   = minValue (columnStatistics example_pinned ! c))
          \<and> (maxValueIsFinal (columnStatistics example_pinned ! c)
               \<longrightarrow> maxValue (columnStatistics pb' ! c)
                   = maxValue (columnStatistics example_pinned ! c))
          \<and> (n_distinctIsFinal (columnStatistics example_pinned ! c)
               \<longrightarrow> distinctValues pb' ! c = distinctValues example_pinned ! c)))
   \<and> minValueIsFinal (columnStatistics example_pinned ! 0)
   \<and> (\<exists>pb1. piggyback \<lparr>piggyback = Some example_pinned, stdout = []\<rparr> = Some pb1
            \<and> (\<forall>c. columnStatistics pb1 ! c = columnStatistics example_fresh ! c
                 \<or> (n_distinctIsFinal (columnStatistics pb1 ! c)
                     \<and> minValueIsFinal (columnStatistics pb1 ! c)
                     \<and> maxValueIsFinal (columnStatistics pb1 ! c)
                     \<and> mostFrequentValueIsFinal (columnStatistics pb1 ! c))))"
proof -
  have h1: "piggyback \<lparr>piggyback = Some example_pinned, stdout = []\<rparr> = Some example_pinned"
    by simp
  have h2: "1 = root example_pinned"
    by (simp add: example_pinned_def example_piggyback_def)
  have h3: "\<forall>attrs\<in>set [[value_of_type INT4OID 5, value_of_type INT4OID 7],
                           [value_of_type INT4OID 3, value_of_type INT4OID 9]].
      holds_columns example_pinned (length attrs)"
    by (simp add: holds_columns_def example_pinned_def example_piggyback_def)
  have run: "LookForFilterWithEquality 0 [()] 7 (OpExpr 96 [Var 1, Const 42] # [])
        \<lparr>piggyback = Some example_fresh, stdout = []\<rparr>
      = Some (\<lparr>piggyback = Some example_fresh, stdout = []\<rparr>\<lparr>piggyback :=
          Some (example_fresh\<lparr>columnStatistics := (columnStatistics example_fresh)[0 :=
            pin_to_literal \<lparr>srctableid = 0, srccolumnid = scast (1 :: AttrNumber), typid = 20\<rparr>
              (PtrConstvalue 42) (columnStatistics example_fresh ! 0)]\<rparr>)\<rparr>)"
    by (rule LookForFilterWithEquality_pins)
      (simp_all add: example_fresh_def example_piggyback_def example_statistic_def
        is_equality_opno_def)
  have run': "LookForFilterWithEquality 0 [()] 7 [OpExpr 96 [Var 1, Const 42]]
        \<lparr>piggyback = Some example_fresh, stdout = []\<rparr>
      = Some \<lparr>piggyback = Some example_pinned, stdout = []\<rparr>
      \<and> piggyback \<lparr>piggyback = Some example_fresh, stdout = []\<rparr> = Some example_fresh"
    using run
    by (simp add: example_fresh_def example_pinned_def example_piggyback_def
        example_statistic_def)
  have final: "minValueIsFinal (columnStatistics example_pinned ! 0)"
    by (simp add: example_pinned_def example_piggyback_def pin_to_literal_def)
  from finality_lock [OF h1 h2 h3, of example_host 0 "[()]" 7 "[OpExpr 96 [Var 1, Const 42]]"
      "\<lparr>piggyback = Some example_fresh, stdout = []\<rparr>"
      "\<lparr>piggyback = Some example_pinned, stdout = []\<rparr>" example_fresh]
    run' final
  show ?thesis by blast
qed

subsection \<open>Integer and decimal values\<close>

lemma row_integer_statistic:
  assumes "piggyback st = Some pb" and "plan = root pb" and "holds_columns pb (length attrs)"
    and "ExecProcNode_piggyback h plan (produced attrs) st = Some (st\<lparr>piggyback := Some pb'\<rparr>)"
    and "c < length attrs" and "\<not> isNull (attrs ! c)"
    and "is_integer_family (atttypid (attrs ! c))"
  shows "columnStatistics pb' ! c
      = accumulate_integer (ucast (datum (attrs ! c))) (columnStatistics pb ! c)"
    and "distinctValues pb' ! c =
      (if n_distinctIsFinal (columnStatistics pb ! c) then distinctValues pb ! c
       else hashset_add_integer (distinctValues pb ! c) (ucast (datum (attrs ! c))))"
    and "slotValues pb' ! c = format_d (sint (ucast (datum (attrs ! c)) :: cint))"
  using row_integer [OF assms] by (simp_all add: column_state_def)



lemma format_d_65535: "format_d 65535 = ''65535''"
  by (simp add: format_d_def decimal_digits.simps)

text \<open>
  Claim C9. The claim has every value of an integer column coerced to a signed
  representation before the minimum, the maximum and the set of distinct values are
  updated, and the comment of the block announces a conversion that is aware of the
  type. For a negative two-byte integer the block does not convert so:
  \<^verbatim>\<open>(int) (datum)\<close> takes the low 32 bits of the datum, whatever the type, and the datum
  of the \<^verbatim>\<open>INT2OID\<close> value -1 is \<^verbatim>\<open>0xFFFF\<close>. So for a row with this value the block
  records 65535 as the minimum and the maximum, as the key in the set of distinct values
  and as the slot value, where the value of the column is -1.
\<close>

theorem negative_smallint_is_recorded_as_65535:
  "Int16GetDatum (- 1) = 0xFFFF
   \<and> sint (DatumGetInt16 (Int16GetDatum (- 1))) = - 1
   \<and> minValue (columnStatistics (the (piggyback (the
        (ExecProcNode_piggyback example_host 1
           (produced [value_of_type INT2OID (Int16GetDatum (- 1)), value_of_type INT4OID 7])
           \<lparr>piggyback = Some example_fresh, stdout = []\<rparr>)))) ! 0) = PtrInt 65535
   \<and> maxValue (columnStatistics (the (piggyback (the
        (ExecProcNode_piggyback example_host 1
           (produced [value_of_type INT2OID (Int16GetDatum (- 1)), value_of_type INT4OID 7])
           \<lparr>piggyback = Some example_fresh, stdout = []\<rparr>)))) ! 0) = PtrInt 65535
   \<and> sint (65535 :: cint) = 65535
   \<and> distinctValues (the (piggyback (the
        (ExecProcNode_piggyback example_host 1
           (produced [value_of_type INT2OID (Int16GetDatum (- 1)), value_of_type INT4OID 7])
           \<lparr>piggyback = Some example_fresh, stdout = []\<rparr>)))) ! 0 = {|IntegerKey 65535|}
   \<and> slotValues (the (piggyback (the
        (ExecProcNode_piggyback example_host 1
           (produced [value_of_type INT2OID (Int16GetDatum (- 1)), value_of_type INT4OID 7])
           \<lparr>piggyback = Some example_fresh, stdout = []\<rparr>)))) ! 0 = ''65535''"
proof -
  have h1: "piggyback \<lparr>piggyback = Some example_fresh, stdout = []\<rparr> = Some example_fresh"
    by simp
  have h2: "1 = root example_fresh"
    by (simp add: example_fresh_def example_piggyback_def)
  let ?attrs = "[value_of_type INT2OID (Int16GetDatum (- 1)), value_of_type INT4OID 7]"
  have h3: "holds_columns example_fresh (length ?attrs)"
    by (simp add: holds_columns_def example_fresh_def example_piggyback_def)
  have h4: "0 < length ?attrs" by simp
  have h5: "\<not> isNull (?attrs ! 0)" by (simp add: value_of_type_def)
  have h6: "is_integer_family (atttypid (?attrs ! 0))"
    by (simp add: value_of_type_def is_integer_family_def)
  have low: "(- 1 :: 16 word) = 65535" by simp
  have enc: "Int16GetDatum (- 1) = 0xFFFF"
    unfolding Int16GetDatum_def low by simp
  have dec: "sint (DatumGetInt16 (Int16GetDatum (- 1))) = - 1"
    by (simp add: enc DatumGetInt16_def)
  have d: "(ucast (datum (value_of_type INT2OID (Int16GetDatum (- 1)))) :: cint) = 65535"
    by (simp add: value_of_type_def enc)
  have col: "minValue (columnStatistics example_fresh ! 0) = PtrInt INT_MAX"
    "maxValue (columnStatistics example_fresh ! 0) = PtrInt INT_MIN"
    "\<not> minValueIsFinal (columnStatistics example_fresh ! 0)"
    "\<not> maxValueIsFinal (columnStatistics example_fresh ! 0)"
    "\<not> n_distinctIsFinal (columnStatistics example_fresh ! 0)"
    "distinctValues example_fresh ! 0 = {||}"
    by (simp_all add: example_fresh_def example_piggyback_def example_statistic_def)
  from row_total [OF h1 h2 h3, of example_host]
  obtain pb' where run: "ExecProcNode_piggyback example_host 1 (produced ?attrs)
           \<lparr>piggyback = Some example_fresh, stdout = []\<rparr>
         = Some (\<lparr>piggyback = Some example_fresh, stdout = []\<rparr>\<lparr>piggyback := Some pb'\<rparr>)"
    by blast
  note facts = row_integer_statistic [OF h1 h2 h3 run h4 h5 h6]
  have "minValue (columnStatistics pb' ! 0) = PtrInt 65535"
    using facts(1) by (simp add: d col accumulate_integer_minValue)
  moreover have "maxValue (columnStatistics pb' ! 0) = PtrInt 65535"
    using facts(1) by (simp add: d col accumulate_integer_maxValue)
  moreover have "distinctValues pb' ! 0 = {|IntegerKey 65535|}"
    using facts(2) by (simp add: d col hashset_add_integer_def)
  moreover have "slotValues pb' ! 0 = ''65535''"
    using facts(3) by (simp add: d format_d_65535)
  moreover have "sint (65535 :: cint) = 65535" by simp
  ultimately show ?thesis unfolding run using enc dec by simp
qed

text \<open>
  Claim C10. A row whose value in a column is a \<^verbatim>\<open>NUMERICOID\<close> value that is not null
  records the slot value of the column and leaves its statistic (with the minimum, the
  maximum and the numeric flag) and its set of distinct values as they were. So after any
  rows with such values in the column, the statistic and the set are those from before
  the rows: a set that was empty is still empty, and the report gives the count 0.
\<close>

theorem decimal_rows_leave_statistics:
  assumes st: "piggyback st = Some pb" and plan: "plan = root pb"
    and rows: "\<forall>attrs\<in>set rows. holds_columns pb (length attrs) \<and> c < length attrs
        \<and> \<not> isNull (attrs ! c) \<and> atttypid (attrs ! c) = NUMERICOID"
  shows "(\<forall>attrs\<in>set rows. \<exists>p1.
          ExecProcNode_piggyback h plan (produced attrs) st = Some (st\<lparr>piggyback := Some p1\<rparr>)
        \<and> columnStatistics p1 ! c = columnStatistics pb ! c
        \<and> distinctValues p1 ! c = distinctValues pb ! c
        \<and> slotValues p1 ! c = format_d (sint (float_to_int h (datum (attrs ! c)))))
     \<and> (\<exists>pb'. process_rows h plan (map produced rows) st = Some (st\<lparr>piggyback := Some pb'\<rparr>)
        \<and> columnStatistics pb' ! c = columnStatistics pb ! c
        \<and> distinctValues pb' ! c = distinctValues pb ! c
        \<and> (distinctValues pb ! c = {||} \<longrightarrow>
              hash_get_num_entries (distinctValues pb' ! c) = 0
              \<and> report_line (columnNames pb' ! c) c (hash_get_num_entries (distinctValues pb' ! c))
                  = report_line (columnNames pb ! c) c 0))"
proof
  show "\<forall>attrs\<in>set rows. \<exists>p1.
          ExecProcNode_piggyback h plan (produced attrs) st = Some (st\<lparr>piggyback := Some p1\<rparr>)
        \<and> columnStatistics p1 ! c = columnStatistics pb ! c
        \<and> distinctValues p1 ! c = distinctValues pb ! c
        \<and> slotValues p1 ! c = format_d (sint (float_to_int h (datum (attrs ! c))))"
  proof
    fix attrs
    assume "attrs \<in> set rows"
    with rows have a: "holds_columns pb (length attrs)" "c < length attrs"
      "\<not> isNull (attrs ! c)" "atttypid (attrs ! c) = NUMERICOID"
      by simp_all
    from row_total [OF st plan a(1), of h]
    obtain p1 where run: "ExecProcNode_piggyback h plan (produced attrs) st
        = Some (st\<lparr>piggyback := Some p1\<rparr>)"
      by blast
    from row_numeric [OF st plan a(1) run a(2,3,4)]
    have "columnStatistics p1 ! c = columnStatistics pb ! c"
      "distinctValues p1 ! c = distinctValues pb ! c"
      "slotValues p1 ! c = format_d (sint (float_to_int h (datum (attrs ! c))))"
      by (simp_all add: column_state_def)
    with run show "\<exists>p1.
          ExecProcNode_piggyback h plan (produced attrs) st = Some (st\<lparr>piggyback := Some p1\<rparr>)
        \<and> columnStatistics p1 ! c = columnStatistics pb ! c
        \<and> distinctValues p1 ! c = distinctValues pb ! c
        \<and> slotValues p1 ! c = format_d (sint (float_to_int h (datum (attrs ! c))))"
      by blast
  qed
next
  let ?P = "\<lambda>p. columnStatistics p ! c = columnStatistics pb ! c
      \<and> distinctValues p ! c = distinctValues pb ! c \<and> columnNames p = columnNames pb"
  have "\<exists>pb'. process_rows h plan (map produced rows) st = Some (st\<lparr>piggyback := Some pb'\<rparr>)
      \<and> ?P pb'"
  proof (rule process_rows_invariant [where P = ?P, OF st plan])
    show "\<forall>attrs\<in>set rows. holds_columns pb (length attrs)" using rows by simp
    show "?P pb" by simp
    fix attrs s p p'
    assume a: "attrs \<in> set rows" and P: "?P p" and s: "piggyback s = Some p"
      and pl: "plan = root p" and fits: "holds_columns p (length attrs)"
      and run: "ExecProcNode_piggyback h plan (produced attrs) s
          = Some (s\<lparr>piggyback := Some p'\<rparr>)"
    from a rows have at: "c < length attrs" "\<not> isNull (attrs ! c)"
      "atttypid (attrs ! c) = NUMERICOID"
      by simp_all
    from row_numeric [OF s pl fits run at]
    have "columnStatistics p' ! c = columnStatistics p ! c"
      "distinctValues p' ! c = distinctValues p ! c"
      by (simp_all add: column_state_def)
    moreover have "columnNames p' = columnNames p"
      using row_frame [OF s pl fits run] by simp
    ultimately show "?P p'" using P by simp
  qed
  then obtain pb' where run: "process_rows h plan (map produced rows) st
      = Some (st\<lparr>piggyback := Some pb'\<rparr>)"
    and P: "?P pb'"
    by blast
  show "\<exists>pb'. process_rows h plan (map produced rows) st = Some (st\<lparr>piggyback := Some pb'\<rparr>)
        \<and> columnStatistics pb' ! c = columnStatistics pb ! c
        \<and> distinctValues pb' ! c = distinctValues pb ! c
        \<and> (distinctValues pb ! c = {||} \<longrightarrow>
              hash_get_num_entries (distinctValues pb' ! c) = 0
              \<and> report_line (columnNames pb' ! c) c (hash_get_num_entries (distinctValues pb' ! c))
                  = report_line (columnNames pb ! c) c 0)"
    by (rule exI [where x = pb']) (simp add: run P hash_get_num_entries_def fcard_fempty)
qed

theorem decimal_rows_leave_statistics_witness:
  "\<exists>pb'. process_rows example_host 1
            (map produced [[value_of_type NUMERICOID 100, value_of_type INT4OID 7],
                           [value_of_type NUMERICOID 200, value_of_type INT4OID 8]])
            \<lparr>piggyback = Some example_fresh, stdout = []\<rparr>
         = Some (\<lparr>piggyback = Some example_fresh, stdout = []\<rparr>\<lparr>piggyback := Some pb'\<rparr>)
     \<and> columnStatistics pb' ! 0 = example_statistic 1
     \<and> distinctValues pb' ! 0 = {||}
     \<and> hash_get_num_entries (distinctValues pb' ! 0) = 0"
proof -
  have h1: "piggyback \<lparr>piggyback = Some example_fresh, stdout = []\<rparr> = Some example_fresh"
    by simp
  have h2: "1 = root example_fresh"
    by (simp add: example_fresh_def example_piggyback_def)
  have h3: "\<forall>attrs\<in>set [[value_of_type NUMERICOID 100, value_of_type INT4OID 7],
                           [value_of_type NUMERICOID 200, value_of_type INT4OID 8]].
        holds_columns example_fresh (length attrs) \<and> 0 < length attrs
        \<and> \<not> isNull (attrs ! 0) \<and> atttypid (attrs ! 0) = NUMERICOID"
    by (simp add: holds_columns_def example_fresh_def example_piggyback_def value_of_type_def)
  have col: "columnStatistics example_fresh ! 0 = example_statistic 1"
    "distinctValues example_fresh ! 0 = {||}"
    by (simp_all add: example_fresh_def example_piggyback_def)
  from decimal_rows_leave_statistics [OF h1 h2 h3, of example_host]
  show ?thesis
    unfolding col by blast
qed

end
